theory Spec2Isabelle
  imports Main
begin

section \<open>Data model\<close>

text \<open>
  The connector keeps a queue of operations. The declarations below follow
  \<^verbatim>\<open>cli/src/types.ts\<close> and \<^verbatim>\<open>shared/test-utils/mock-connector-types.ts\<close>.
  JavaScript values are modelled as follows: a string is a \<^typ>\<open>string\<close>; a number that
  holds an exit code, a timestamp or a counter is an \<^typ>\<open>int\<close> or \<^typ>\<open>nat\<close>;
  an optional property (\<^verbatim>\<open>undefined\<close> or \<^verbatim>\<open>null\<close>) is an \<^typ>\<open>'a option\<close>;
  a \<^verbatim>\<open>Record<string, T>\<close> is a map from strings. The field \<^verbatim>\<open>id\<close> is called
  \<open>op_id\<close> and the field \<^verbatim>\<open>type\<close> is called \<open>op_type\<close>.
\<close>

datatype OperationStatus = Pending | Approved | Running | Completed | Failed | Cancelled

text \<open>
  What the property \<^verbatim>\<open>exitCode\<close> of a result holds at run time. The interfaces declare a
  number; \<open>execNpm\<close> stores the \<^verbatim>\<open>code\<close> of the error Node rejects with, which is a number
  (the exit code of the child) or a string (\<^verbatim>\<open>'ENOENT'\<close>,
  \<^verbatim>\<open>'ERR_CHILD_PROCESS_STDIO_MAXBUFFER'\<close>) when the child could not be started or was cut
  off for its output.
\<close>

datatype exit_code = CodeNum int | CodeStr string

record OperationResult =
  stdout :: string
  stderr :: string
  exitCode :: exit_code
  requiresOtp :: "bool option"
  authFailure :: "bool option"

record PendingOperation =
  op_id :: string
  op_type :: string
  params :: "string \<rightharpoonup> string"
  description :: string
  command :: string
  status :: OperationStatus
  createdAt :: int
  dependsOn :: "string option"
  result :: "OperationResult option"

text \<open>JavaScript truthiness of an optional string: defined and not empty.\<close>

fun truthy :: "string option \<Rightarrow> bool" where
  "truthy None = False"
| "truthy (Some s) = (s \<noteq> [])"

section \<open>The connector server\<close>

subsection \<open>Command executor (\<^verbatim>\<open>npm-client.ts\<close>)\<close>

text \<open>
  \<^verbatim>\<open>execAsync\<close> is Node's promisified \<^verbatim>\<open>child_process.exec\<close>. It is outside the
  repository, so its outcome is an input of the model: the promise either resolves with
  the two captured streams, or rejects with an error object of which \<^verbatim>\<open>execNpm\<close> reads
  the properties \<^verbatim>\<open>stdout\<close>, \<^verbatim>\<open>stderr\<close> and \<^verbatim>\<open>code\<close>, each of which may be absent, and
  whose rendering \<^verbatim>\<open>String(error)\<close> is the last component. The source casts the error to
  \<^verbatim>\<open>{ stdout?: string, stderr?: string, code?: number }\<close>; the cast checks nothing, and
  \<^verbatim>\<open>code\<close> is a string on the errors of Node that are not the exit of the child. It is
  absent (\<^verbatim>\<open>null\<close>) when the child was killed, as the timeout does.
\<close>

datatype exec_outcome =
  Resolved string string
| Rejected "string option" "string option" "exit_code option" string

text \<open>
  \<^verbatim>\<open>String.prototype.trim\<close> removes white space and line terminators at both ends. A
  \<^typ>\<open>char\<close> stands for the code unit of the same number, so the strings of the model are
  the strings whose code units are below 256. The white space and line terminators below
  256 are tab, line feed, vertical tab, form feed, carriage return, space and the
  no-break space U+00A0.
\<close>

definition is_space :: "char \<Rightarrow> bool" where
  "is_space c =
     (c \<in> {CHR 0x09, CHR 0x0A, CHR 0x0B, CHR 0x0C, CHR 0x0D, CHR 0x20, CHR 0xA0})"

definition trim :: "string \<Rightarrow> string" where
  "trim s = rev (dropWhile is_space (rev (dropWhile is_space s)))"

text \<open>\<^verbatim>\<open>Array.prototype.join(' ')\<close>.\<close>

fun join_space :: "string list \<Rightarrow> string" where
  "join_space [] = []"
| "join_space [x] = x"
| "join_space (x # y # ys) = x @ '' '' @ join_space (y # ys)"

text \<open>The command line that \<^verbatim>\<open>execNpm\<close> hands to the shell.\<close>

definition npm_cmd :: "string list \<Rightarrow> string option \<Rightarrow> string" where
  "npm_cmd args otp =
     join_space ((''npm'' # args) @ (if truthy otp then [''--otp'', the otp] else []))"

text \<open>
  \<^verbatim>\<open>execNpm(args, { otp })\<close>. The first argument is the outcome of \<^verbatim>\<open>execAsync\<close> for a
  command line. The \<^verbatim>\<open>try\<close> branch is \<open>Resolved\<close>, the \<^verbatim>\<open>catch\<close> branch is \<open>Rejected\<close>.
\<close>

definition execNpm :: "(string \<Rightarrow> exec_outcome) \<Rightarrow> string list \<Rightarrow> string option \<Rightarrow> OperationResult" where
  "execNpm execAsync args otp =
     (case execAsync (npm_cmd args otp) of
        Resolved out err \<Rightarrow>
          \<lparr>stdout = trim out, stderr = trim err, exitCode = CodeNum 0,
           requiresOtp = None, authFailure = None\<rparr>
      | Rejected out err code msg \<Rightarrow>
          \<lparr>stdout = (case out of Some s \<Rightarrow> trim s | None \<Rightarrow> []),
           stderr = (case err of Some s \<Rightarrow> trim s | None \<Rightarrow> msg),
           exitCode = (case code of Some c \<Rightarrow> c | None \<Rightarrow> CodeNum 1),
           requiresOtp = None, authFailure = None\<rparr>)"

definition getNpmUser :: "(string \<Rightarrow> exec_outcome) \<Rightarrow> string option" where
  "getNpmUser execAsync =
     (let r = execNpm execAsync [''whoami''] None
      in if exitCode r = CodeNum 0 \<and> stdout r \<noteq> [] then Some (stdout r) else None)"

text \<open>
  The wrappers of \<^verbatim>\<open>npm-client.ts\<close>, one per registry mutation. Each builds the
  argument vector and forwards the optional one-time password.
\<close>

definition orgAddUser :: "(string \<Rightarrow> exec_outcome) \<Rightarrow> string \<Rightarrow> string \<Rightarrow> string \<Rightarrow> string option \<Rightarrow> OperationResult" where
  "orgAddUser ex org user role otp = execNpm ex [''org'', ''set'', org, user, role] otp"

definition orgRemoveUser :: "(string \<Rightarrow> exec_outcome) \<Rightarrow> string \<Rightarrow> string \<Rightarrow> string option \<Rightarrow> OperationResult" where
  "orgRemoveUser ex org user otp = execNpm ex [''org'', ''rm'', org, user] otp"

definition teamCreate :: "(string \<Rightarrow> exec_outcome) \<Rightarrow> string \<Rightarrow> string option \<Rightarrow> OperationResult" where
  "teamCreate ex scopeTeam otp = execNpm ex [''team'', ''create'', scopeTeam] otp"

definition teamDestroy :: "(string \<Rightarrow> exec_outcome) \<Rightarrow> string \<Rightarrow> string option \<Rightarrow> OperationResult" where
  "teamDestroy ex scopeTeam otp = execNpm ex [''team'', ''destroy'', scopeTeam] otp"

definition teamAddUser :: "(string \<Rightarrow> exec_outcome) \<Rightarrow> string \<Rightarrow> string \<Rightarrow> string option \<Rightarrow> OperationResult" where
  "teamAddUser ex scopeTeam user otp = execNpm ex [''team'', ''add'', scopeTeam, user] otp"

definition teamRemoveUser :: "(string \<Rightarrow> exec_outcome) \<Rightarrow> string \<Rightarrow> string \<Rightarrow> string option \<Rightarrow> OperationResult" where
  "teamRemoveUser ex scopeTeam user otp = execNpm ex [''team'', ''rm'', scopeTeam, user] otp"

definition accessGrant :: "(string \<Rightarrow> exec_outcome) \<Rightarrow> string \<Rightarrow> string \<Rightarrow> string \<Rightarrow> string option \<Rightarrow> OperationResult" where
  "accessGrant ex permission scopeTeam pkg otp =
     execNpm ex [''access'', ''grant'', permission, scopeTeam, pkg] otp"

definition accessRevoke :: "(string \<Rightarrow> exec_outcome) \<Rightarrow> string \<Rightarrow> string \<Rightarrow> string option \<Rightarrow> OperationResult" where
  "accessRevoke ex scopeTeam pkg otp = execNpm ex [''access'', ''revoke'', scopeTeam, pkg] otp"

definition ownerAdd :: "(string \<Rightarrow> exec_outcome) \<Rightarrow> string \<Rightarrow> string \<Rightarrow> string option \<Rightarrow> OperationResult" where
  "ownerAdd ex user pkg otp = execNpm ex [''owner'', ''add'', user, pkg] otp"

definition ownerRemove :: "(string \<Rightarrow> exec_outcome) \<Rightarrow> string \<Rightarrow> string \<Rightarrow> string option \<Rightarrow> OperationResult" where
  "ownerRemove ex user pkg otp = execNpm ex [''owner'', ''rm'', user, pkg] otp"

subsection \<open>Server state and handlers (\<^verbatim>\<open>server.ts\<close>)\<close>

record ConnectorSession =
  token :: string
  connectedAt :: int
  npmUser :: "string option"

record ConnectorState =
  session :: ConnectorSession
  operations :: "PendingOperation list"
  otp :: "string option"

text \<open>
  \<^verbatim>\<open>createError({ statusCode, message })\<close> thrown by a handler is the left summand of the
  handler's result; the state returned beside it is the state at the throw.
\<close>

datatype HttpError = HttpError int string

datatype ApiData =
  ConnectData "string option" int
| StateData "string option" "PendingOperation list" bool
| OperationData PendingOperation
| OperationList "PendingOperation list"
| NoData
| ApprovedCount nat
| ExecuteData "(string \<times> OperationResult) list"
| RemovedCount nat

type_synonym response = "HttpError + ApiData"

text \<open>
  What a handler takes from outside the process: the readings of \<^verbatim>\<open>Date.now()\<close>, the
  values of \<^verbatim>\<open>generateOperationId()\<close> and the outcomes of the child processes, each
  indexed by its position among the calls of one request.
\<close>

record env =
  clock :: "nat \<Rightarrow> int"
  random_id :: "nat \<Rightarrow> string"
  execAsync :: "nat \<Rightarrow> string \<Rightarrow> exec_outcome"

record ConnectBody =
  body_token :: "string option"

record OperationBody =
  body_type :: string
  body_params :: "string \<rightharpoonup> string"
  body_description :: string
  body_command :: string

record OtpBody =
  body_otp :: "string option"

definition initial_state :: "string \<Rightarrow> ConnectorState" where
  "initial_state expectedToken =
     \<lparr>session = \<lparr>token = expectedToken, connectedAt = 0, npmUser = None\<rparr>,
      operations = [], otp = None\<rparr>"

text \<open>
  \<^verbatim>\<open>s.replace(pat, rep)\<close> with a string pattern replaces the first occurrence of
  \<open>pat\<close> in \<open>s\<close>, wherever it stands.
\<close>

fun replace_first :: "string \<Rightarrow> string \<Rightarrow> string \<Rightarrow> string" where
  "replace_first pat rep [] = (if pat = [] then rep else [])"
| "replace_first pat rep (c # cs) =
     (if take (length pat) (c # cs) = pat then rep @ drop (length pat) (c # cs)
      else c # replace_first pat rep cs)"

definition validateToken :: "string \<Rightarrow> string option \<Rightarrow> bool" where
  "validateToken expectedToken authHeader =
     (if \<not> truthy authHeader then False
      else replace_first ''Bearer '' [] (the authHeader) = expectedToken)"

definition unauthorized :: HttpError where
  "unauthorized = HttpError 401 ''Unauthorized''"

definition connect_handler ::
  "string \<Rightarrow> env \<Rightarrow> ConnectBody option \<Rightarrow> ConnectorState \<Rightarrow> response \<times> ConnectorState" where
  "connect_handler expectedToken e body s =
     (if (case body of Some b \<Rightarrow> body_token b | None \<Rightarrow> None) \<noteq> Some expectedToken
      then (Inl (HttpError 401 ''Invalid token''), s)
      else
        let user = getNpmUser (execAsync e 0);
            s1 = s\<lparr>session := (session s)\<lparr>connectedAt := clock e 0\<rparr>\<rparr>;
            s2 = s1\<lparr>session := (session s1)\<lparr>npmUser := user\<rparr>\<rparr>
        in (Inr (ConnectData user (connectedAt (session s2))), s2))"

definition state_handler ::
  "string \<Rightarrow> string option \<Rightarrow> ConnectorState \<Rightarrow> response \<times> ConnectorState" where
  "state_handler expectedToken auth s =
     (if \<not> validateToken expectedToken auth then (Inl unauthorized, s)
      else (Inr (StateData (npmUser (session s)) (operations s) (truthy (otp s))), s))"

definition new_operation :: "string \<Rightarrow> int \<Rightarrow> OperationBody \<Rightarrow> PendingOperation" where
  "new_operation i t b =
     \<lparr>op_id = i, op_type = body_type b, params = body_params b,
      description = body_description b, command = body_command b,
      status = Pending, createdAt = t, dependsOn = None, result = None\<rparr>"

text \<open>
  Destructuring or iterating an absent body throws a \<^verbatim>\<open>TypeError\<close>, which the framework
  reports as status 500.
\<close>

definition operations_handler ::
  "string \<Rightarrow> env \<Rightarrow> string option \<Rightarrow> OperationBody option \<Rightarrow> ConnectorState \<Rightarrow> response \<times> ConnectorState" where
  "operations_handler expectedToken e auth body s =
     (if \<not> validateToken expectedToken auth then (Inl unauthorized, s)
      else case body of
        None \<Rightarrow> (Inl (HttpError 500 ''TypeError''), s)
      | Some b \<Rightarrow>
          let operation = new_operation (random_id e 0) (clock e 0) b
          in (Inr (OperationData operation), s\<lparr>operations := operations s @ [operation]\<rparr>))"

fun batch_loop :: "env \<Rightarrow> nat \<Rightarrow> OperationBody list \<Rightarrow> PendingOperation list" where
  "batch_loop e k [] = []"
| "batch_loop e k (b # bs) = new_operation (random_id e k) (clock e k) b # batch_loop e (Suc k) bs"

definition batch_handler ::
  "string \<Rightarrow> env \<Rightarrow> string option \<Rightarrow> OperationBody list option \<Rightarrow> ConnectorState \<Rightarrow> response \<times> ConnectorState" where
  "batch_handler expectedToken e auth body s =
     (if \<not> validateToken expectedToken auth then (Inl unauthorized, s)
      else case body of
        None \<Rightarrow> (Inl (HttpError 500 ''TypeError''), s)
      | Some bs \<Rightarrow>
          let created = batch_loop e 0 bs
          in (Inr (OperationList created), s\<lparr>operations := operations s @ created\<rparr>))"

definition otp_handler ::
  "string \<Rightarrow> string option \<Rightarrow> OtpBody option \<Rightarrow> ConnectorState \<Rightarrow> response \<times> ConnectorState" where
  "otp_handler expectedToken auth body s =
     (if \<not> validateToken expectedToken auth then (Inl unauthorized, s)
      else (Inr NoData, s\<lparr>otp := (case body of Some b \<Rightarrow> body_otp b | None \<Rightarrow> None)\<rparr>))"

text \<open>
  An array of the source holds references to objects, and writing \<^verbatim>\<open>op.status\<close> through
  one reference is seen through every other. The objects of the queue live in the list
  \<open>operations\<close>; a reference to one of them is its position in that list.
\<close>

type_synonym opref = nat

text \<open>\<^verbatim>\<open>Array.prototype.findIndex\<close>, with \<open>None\<close> for \<^verbatim>\<open>-1\<close>.\<close>

fun findIndex :: "('a \<Rightarrow> bool) \<Rightarrow> 'a list \<Rightarrow> nat option" where
  "findIndex P [] = None"
| "findIndex P (x # xs) =
     (if P x then Some 0 else (case findIndex P xs of None \<Rightarrow> None | Some i \<Rightarrow> Some (Suc i)))"

text \<open>The references \<^verbatim>\<open>ops.filter(op => op.status === st)\<close> returns, in queue order.\<close>

definition refs_with_status :: "OperationStatus \<Rightarrow> PendingOperation list \<Rightarrow> opref list" where
  "refs_with_status st ops = filter (\<lambda>r. status (ops ! r) = st) [0..<length ops]"

definition approve_handler ::
  "string \<Rightarrow> string option \<Rightarrow> string option \<Rightarrow> ConnectorState \<Rightarrow> response \<times> ConnectorState" where
  "approve_handler expectedToken auth qid s =
     (if \<not> validateToken expectedToken auth then (Inl unauthorized, s)
      else case findIndex (\<lambda>op. Some (op_id op) = qid) (operations s) of
        None \<Rightarrow> (Inl (HttpError 404 ''Operation not found''), s)
      | Some r \<Rightarrow>
          let operation = operations s ! r in
          if status operation \<noteq> Pending
          then (Inl (HttpError 400 ''Operation is not pending''), s)
          else
            let operation' = operation\<lparr>status := Approved\<rparr>
            in (Inr (OperationData operation'),
                s\<lparr>operations := (operations s)[r := operation']\<rparr>))"

fun approve_refs :: "opref list \<Rightarrow> PendingOperation list \<Rightarrow> PendingOperation list" where
  "approve_refs [] ops = ops"
| "approve_refs (r # rs) ops = approve_refs rs (ops[r := (ops ! r)\<lparr>status := Approved\<rparr>])"

definition approve_all_handler ::
  "string \<Rightarrow> string option \<Rightarrow> ConnectorState \<Rightarrow> response \<times> ConnectorState" where
  "approve_all_handler expectedToken auth s =
     (if \<not> validateToken expectedToken auth then (Inl unauthorized, s)
      else
        let pendingOps = refs_with_status Pending (operations s)
        in (Inr (ApprovedCount (length pendingOps)),
            s\<lparr>operations := approve_refs pendingOps (operations s)\<rparr>))"

text \<open>
  \<^verbatim>\<open>params.org!\<close> and its siblings: a missing parameter is \<^verbatim>\<open>undefined\<close>, which
  \<^verbatim>\<open>join\<close> renders as the empty string on the command line.
\<close>

definition param :: "(string \<rightharpoonup> string) \<Rightarrow> string \<Rightarrow> string" where
  "param p k = (case p k of Some v \<Rightarrow> v | None \<Rightarrow> [])"

definition executeOperation ::
  "(string \<Rightarrow> exec_outcome) \<Rightarrow> PendingOperation \<Rightarrow> string option \<Rightarrow> OperationResult" where
  "executeOperation ex op otp' =
     (let p = param (params op); t = op_type op in
      if t = ''org:add-user'' then orgAddUser ex (p ''org'') (p ''user'') (p ''role'') otp'
      else if t = ''org:rm-user'' then orgRemoveUser ex (p ''org'') (p ''user'') otp'
      else if t = ''team:create'' then teamCreate ex (p ''scopeTeam'') otp'
      else if t = ''team:destroy'' then teamDestroy ex (p ''scopeTeam'') otp'
      else if t = ''team:add-user'' then teamAddUser ex (p ''scopeTeam'') (p ''user'') otp'
      else if t = ''team:rm-user'' then teamRemoveUser ex (p ''scopeTeam'') (p ''user'') otp'
      else if t = ''access:grant''
        then accessGrant ex (p ''permission'') (p ''scopeTeam'') (p ''pkg'') otp'
      else if t = ''access:revoke'' then accessRevoke ex (p ''scopeTeam'') (p ''pkg'') otp'
      else if t = ''owner:add'' then ownerAdd ex (p ''user'') (p ''pkg'') otp'
      else if t = ''owner:rm'' then ownerRemove ex (p ''user'') (p ''pkg'') otp'
      else \<lparr>stdout = [], stderr = ''Unknown operation type: '' @ t, exitCode = CodeNum 1,
            requiresOtp = None, authFailure = None\<rparr>)"

text \<open>
  The loop of \<^verbatim>\<open>/execute\<close> over the approved references. The counter numbers the
  operations of the request, for the outcome of each one's child process.
\<close>

fun execute_loop ::
  "env \<Rightarrow> nat \<Rightarrow> opref list \<Rightarrow> ConnectorState \<Rightarrow> (string \<times> OperationResult) list
   \<Rightarrow> ConnectorState \<times> (string \<times> OperationResult) list" where
  "execute_loop e k [] s results = (s, results)"
| "execute_loop e k (r # rs) s results =
     (let s1 = s\<lparr>operations := (operations s)[r := (operations s ! r)\<lparr>status := Running\<rparr>]\<rparr>;
          res = executeOperation (execAsync e k) (operations s1 ! r) (otp s1);
          s2 = s1\<lparr>operations := (operations s1)[r := (operations s1 ! r)\<lparr>result := Some res\<rparr>]\<rparr>;
          s3 = s2\<lparr>operations := (operations s2)
                 [r := (operations s2 ! r)\<lparr>status := (if exitCode res = CodeNum 0 then Completed else Failed)\<rparr>]\<rparr>
      in execute_loop e (Suc k) rs s3 (results @ [(op_id (operations s3 ! r), res)]))"

definition execute_handler ::
  "string \<Rightarrow> env \<Rightarrow> string option \<Rightarrow> ConnectorState \<Rightarrow> response \<times> ConnectorState" where
  "execute_handler expectedToken e auth s =
     (if \<not> validateToken expectedToken auth then (Inl unauthorized, s)
      else
        let approvedOps = refs_with_status Approved (operations s);
            (s', results) = execute_loop e 0 approvedOps s []
        in (Inr (ExecuteData results), s'))"

definition delete_handler ::
  "string \<Rightarrow> string option \<Rightarrow> string option \<Rightarrow> ConnectorState \<Rightarrow> response \<times> ConnectorState" where
  "delete_handler expectedToken auth qid s =
     (if \<not> validateToken expectedToken auth then (Inl unauthorized, s)
      else case findIndex (\<lambda>op. Some (op_id op) = qid) (operations s) of
        None \<Rightarrow> (Inl (HttpError 404 ''Operation not found''), s)
      | Some i \<Rightarrow>
          if status (operations s ! i) = Running
          then (Inl (HttpError 400 ''Cannot cancel running operation''), s)
          else (Inr NoData, s\<lparr>operations := take i (operations s) @ drop (Suc i) (operations s)\<rparr>))"

definition delete_all_handler ::
  "string \<Rightarrow> string option \<Rightarrow> ConnectorState \<Rightarrow> response \<times> ConnectorState" where
  "delete_all_handler expectedToken auth s =
     (if \<not> validateToken expectedToken auth then (Inl unauthorized, s)
      else
        let removed = length (filter (\<lambda>op. status op \<noteq> Running) (operations s))
        in (Inr (RemovedCount removed),
            s\<lparr>operations := filter (\<lambda>op. status op = Running) (operations s)\<rparr>))"

text \<open>The routes of the server, and the handler each request reaches.\<close>

datatype request =
  PostConnect "ConnectBody option"
| GetState "string option"
| PostOperations "string option" "OperationBody option"
| PostOperationsBatch "string option" "OperationBody list option"
| PostOtp "string option" "OtpBody option"
| PostApprove "string option" "string option"
| PostApproveAll "string option"
| PostExecute "string option"
| DeleteOperations "string option" "string option"
| DeleteOperationsAll "string option"

fun handle :: "string \<Rightarrow> env \<Rightarrow> request \<Rightarrow> ConnectorState \<Rightarrow> response \<times> ConnectorState" where
  "handle tok e (PostConnect body) s = connect_handler tok e body s"
| "handle tok e (GetState auth) s = state_handler tok auth s"
| "handle tok e (PostOperations auth body) s = operations_handler tok e auth body s"
| "handle tok e (PostOperationsBatch auth body) s = batch_handler tok e auth body s"
| "handle tok e (PostOtp auth body) s = otp_handler tok auth body s"
| "handle tok e (PostApprove auth qid) s = approve_handler tok auth qid s"
| "handle tok e (PostApproveAll auth) s = approve_all_handler tok auth s"
| "handle tok e (PostExecute auth) s = execute_handler tok e auth s"
| "handle tok e (DeleteOperations auth qid) s = delete_handler tok auth qid s"
| "handle tok e (DeleteOperationsAll auth) s = delete_all_handler tok auth s"

section \<open>The mock connector (\<^verbatim>\<open>mock-connector-state.ts\<close>)\<close>

text \<open>
  The state manager that the test server and the composable mock share. Its operations
  are the \<^typ>\<open>PendingOperation\<close> of above. Fields whose names the server state already
  uses carry the prefix \<open>mock_\<close>.
\<close>

record MockConnectorConfig =
  mock_token :: string
  mock_npmUser :: string
  avatar :: "string option"
  port :: "int option"

record MockOrgData =
  users :: "string \<rightharpoonup> string"
  teams :: "string list"
  teamMembers :: "string \<rightharpoonup> string list"

record MockPackageData =
  collaborators :: "string \<rightharpoonup> string"

record MockConnectorStateData =
  config :: MockConnectorConfig
  connected :: bool
  mock_connectedAt :: "int option"
  orgs :: "string \<rightharpoonup> MockOrgData"
  packages :: "string \<rightharpoonup> MockPackageData"
  userPackages :: "string \<rightharpoonup> string"
  userOrgs :: "string list"
  mock_operations :: "PendingOperation list"
  operationIdCounter :: nat

record NewOperationInput =
  in_type :: string
  in_params :: "string \<rightharpoonup> string"
  in_description :: string
  in_command :: string
  in_dependsOn :: "string option"

text \<open>\<^verbatim>\<open>Partial<OperationResult>\<close>: every property may be absent.\<close>

record PartialResult =
  p_stdout :: "string option"
  p_stderr :: "string option"
  p_exitCode :: "int option"
  p_requiresOtp :: "bool option"
  p_authFailure :: "bool option"

record ExecuteOptions =
  opt_otp :: "string option"
  opt_results :: "(string \<rightharpoonup> PartialResult) option"

record ExecuteResult =
  results :: "OperationResult list"
  otpRequired :: "bool option"

definition createMockConnectorState :: "MockConnectorConfig \<Rightarrow> MockConnectorStateData" where
  "createMockConnectorState c =
     \<lparr>config = c\<lparr>port := (case port c of None \<Rightarrow> Some 31415 | Some p \<Rightarrow> Some p)\<rparr>,
      connected = False, mock_connectedAt = None, orgs = Map.empty, packages = Map.empty,
      userPackages = Map.empty, userOrgs = [], mock_operations = [], operationIdCounter = 0\<rparr>"

subsection \<open>Connection\<close>

text \<open>The second argument of \<open>connect\<close> is the reading of \<^verbatim>\<open>Date.now()\<close>.\<close>

definition connect :: "string \<Rightarrow> int \<Rightarrow> MockConnectorStateData \<Rightarrow> bool \<times> MockConnectorStateData" where
  "connect tok now s =
     (if tok \<noteq> mock_token (config s) then (False, s)
      else (True, s\<lparr>connected := True, mock_connectedAt := Some now\<rparr>))"

definition disconnect :: "MockConnectorStateData \<Rightarrow> MockConnectorStateData" where
  "disconnect s = s\<lparr>connected := False, mock_connectedAt := None, mock_operations := []\<rparr>"

definition isConnected :: "MockConnectorStateData \<Rightarrow> bool" where
  "isConnected s = connected s"

subsection \<open>Operations queue\<close>

text \<open>The decimal rendering of the counter in \<^verbatim>\<open>`op-${++counter}`\<close>.\<close>

fun show_nat :: "nat \<Rightarrow> string" where
  "show_nat n =
     (if n < 10 then [char_of (48 + n)]
      else show_nat (n div 10) @ [char_of (48 + n mod 10)])"

definition addOperation ::
  "NewOperationInput \<Rightarrow> int \<Rightarrow> MockConnectorStateData \<Rightarrow> PendingOperation \<times> MockConnectorStateData" where
  "addOperation operation now s =
     (let s1 = s\<lparr>operationIdCounter := Suc (operationIdCounter s)\<rparr>;
          newOp = \<lparr>op_id = ''op-'' @ show_nat (operationIdCounter s1),
                   op_type = in_type operation, params = in_params operation,
                   description = in_description operation, command = in_command operation,
                   status = Pending, createdAt = now, dependsOn = in_dependsOn operation,
                   result = None\<rparr>
      in (newOp, s1\<lparr>mock_operations := mock_operations s1 @ [newOp]\<rparr>))"

fun addOperations ::
  "NewOperationInput list \<Rightarrow> (nat \<Rightarrow> int) \<Rightarrow> nat \<Rightarrow> MockConnectorStateData
   \<Rightarrow> PendingOperation list \<times> MockConnectorStateData" where
  "addOperations [] now k s = ([], s)"
| "addOperations (x # xs) now k s =
     (let (newOp, s1) = addOperation x (now k) s;
          (rest, s2) = addOperations xs now (Suc k) s1
      in (newOp # rest, s2))"

definition getOperation :: "string \<Rightarrow> MockConnectorStateData \<Rightarrow> PendingOperation option" where
  "getOperation i s = find (\<lambda>op. op_id op = i) (mock_operations s)"

definition getOperations :: "MockConnectorStateData \<Rightarrow> PendingOperation list" where
  "getOperations s = mock_operations s"

definition removeOperation :: "string \<Rightarrow> MockConnectorStateData \<Rightarrow> bool \<times> MockConnectorStateData" where
  "removeOperation i s =
     (case findIndex (\<lambda>op. op_id op = i) (mock_operations s) of
        None \<Rightarrow> (False, s)
      | Some index \<Rightarrow>
          if status (mock_operations s ! index) = Running then (False, s)
          else (True, s\<lparr>mock_operations :=
                  take index (mock_operations s) @ drop (Suc index) (mock_operations s)\<rparr>))"

definition clearOperations :: "MockConnectorStateData \<Rightarrow> nat \<times> MockConnectorStateData" where
  "clearOperations s =
     (let removable = filter (\<lambda>op. status op \<noteq> Running) (mock_operations s)
      in (length removable,
          s\<lparr>mock_operations := filter (\<lambda>op. status op = Running) (mock_operations s)\<rparr>))"

definition approveOperation ::
  "string \<Rightarrow> MockConnectorStateData \<Rightarrow> PendingOperation option \<times> MockConnectorStateData" where
  "approveOperation i s =
     (case findIndex (\<lambda>op. op_id op = i) (mock_operations s) of
        None \<Rightarrow> (None, s)
      | Some r \<Rightarrow>
          if status (mock_operations s ! r) \<noteq> Pending then (None, s)
          else
            let op' = (mock_operations s ! r)\<lparr>status := Approved\<rparr>
            in (Some op', s\<lparr>mock_operations := (mock_operations s)[r := op']\<rparr>))"

text \<open>
  The \<^verbatim>\<open>for ... of\<close> loop of \<open>approveAll\<close> walks the queue once and writes to the
  object it is at; the counter is threaded through.
\<close>

fun approveAll_loop :: "PendingOperation list \<Rightarrow> nat \<Rightarrow> PendingOperation list \<times> nat" where
  "approveAll_loop [] count = ([], count)"
| "approveAll_loop (op # ops) count =
     (if status op = Pending
      then (let (ops', c) = approveAll_loop ops (count + 1) in (op\<lparr>status := Approved\<rparr> # ops', c))
      else (let (ops', c) = approveAll_loop ops count in (op # ops', c)))"

definition approveAll :: "MockConnectorStateData \<Rightarrow> nat \<times> MockConnectorStateData" where
  "approveAll s =
     (let (ops', count) = approveAll_loop (mock_operations s) 0
      in (count, s\<lparr>mock_operations := ops'\<rparr>))"

definition retryOperation ::
  "string \<Rightarrow> MockConnectorStateData \<Rightarrow> PendingOperation option \<times> MockConnectorStateData" where
  "retryOperation i s =
     (case findIndex (\<lambda>op. op_id op = i) (mock_operations s) of
        None \<Rightarrow> (None, s)
      | Some r \<Rightarrow>
          if status (mock_operations s ! r) \<noteq> Failed then (None, s)
          else
            let op' = (mock_operations s ! r)\<lparr>status := Approved, result := None\<rparr>
            in (Some op', s\<lparr>mock_operations := (mock_operations s)[r := op']\<rparr>))"

subsection \<open>Effects of a successful operation on the mirrored registry data\<close>

text \<open>\<^verbatim>\<open>org.startsWith('@') ? org : `@${org}`\<close>\<close>

definition normalizedOrg :: "string \<Rightarrow> string" where
  "normalizedOrg org = (case org of CHR ''@'' # _ \<Rightarrow> org | _ \<Rightarrow> CHR ''@'' # org)"

text \<open>\<^verbatim>\<open>String.prototype.split\<close> with a one-character separator.\<close>

fun split_on :: "char \<Rightarrow> string \<Rightarrow> string list" where
  "split_on sep [] = [[]]"
| "split_on sep (c # cs) =
     (if c = sep then [] # split_on sep cs
      else (case split_on sep cs of [] \<Rightarrow> [[c]] | p # ps \<Rightarrow> (c # p) # ps))"

text \<open>\<^verbatim>\<open>const [scope, team] = scopeTeam.split(':')\<close>: a missing piece is \<^verbatim>\<open>undefined\<close>.\<close>

definition scope_and_team :: "string \<Rightarrow> string option \<times> string option" where
  "scope_and_team scopeTeam =
     (case split_on CHR '':'' scopeTeam of
        [] \<Rightarrow> (None, None)
      | [a] \<Rightarrow> (Some a, None)
      | a # b # _ \<Rightarrow> (Some a, Some b))"

definition empty_org :: MockOrgData where
  "empty_org = \<lparr>users = Map.empty, teams = [], teamMembers = Map.empty\<rparr>"

definition org_or_new :: "MockConnectorStateData \<Rightarrow> string \<Rightarrow> MockOrgData" where
  "org_or_new s n = (case orgs s n of Some d \<Rightarrow> d | None \<Rightarrow> empty_org)"

definition package_or_new :: "MockConnectorStateData \<Rightarrow> string \<Rightarrow> MockPackageData" where
  "package_or_new s pkg = (case packages s pkg of Some d \<Rightarrow> d | None \<Rightarrow> \<lparr>collaborators = Map.empty\<rparr>)"

definition applyOperationEffect :: "PendingOperation \<Rightarrow> MockConnectorStateData \<Rightarrow> MockConnectorStateData" where
  "applyOperationEffect op s =
     (let p = params op; t = op_type op in
      if t = ''org:add-user'' then
        (let org = p ''org''; user = p ''user'';
             role = (case p ''role'' of Some r \<Rightarrow> r | None \<Rightarrow> ''developer'') in
         if truthy org \<and> truthy user then
           (let n = normalizedOrg (the org); d = org_or_new s n
            in s\<lparr>orgs := (orgs s)(n \<mapsto> d\<lparr>users := (users d)(the user \<mapsto> role)\<rparr>)\<rparr>)
         else s)
      else if t = ''org:rm-user'' then
        (let org = p ''org''; user = p ''user'' in
         if truthy org \<and> truthy user then
           (let n = normalizedOrg (the org) in
            case orgs s n of
              Some d \<Rightarrow> s\<lparr>orgs := (orgs s)(n \<mapsto> d\<lparr>users := (users d)(the user := None)\<rparr>)\<rparr>
            | None \<Rightarrow> s)
         else s)
      else if t = ''org:set-role'' then
        (let org = p ''org''; user = p ''user''; role = p ''role'' in
         if truthy org \<and> truthy user \<and> truthy role then
           (let n = normalizedOrg (the org) in
            case orgs s n of
              Some d \<Rightarrow> s\<lparr>orgs := (orgs s)(n \<mapsto> d\<lparr>users := (users d)(the user \<mapsto> the role)\<rparr>)\<rparr>
            | None \<Rightarrow> s)
         else s)
      else if t = ''team:create'' then
        (let org = p ''org''; team = p ''team'' in
         if truthy org \<and> truthy team then
           (let n = normalizedOrg (the org); d = org_or_new s n;
                d1 = (if the team \<in> set (teams d) then d else d\<lparr>teams := teams d @ [the team]\<rparr>)
            in s\<lparr>orgs := (orgs s)(n \<mapsto> d1\<lparr>teamMembers := (teamMembers d1)(the team \<mapsto> [])\<rparr>)\<rparr>)
         else s)
      else if t = ''team:destroy'' then
        (let org = p ''org''; team = p ''team'' in
         if truthy org \<and> truthy team then
           (let n = normalizedOrg (the org) in
            case orgs s n of
              Some d \<Rightarrow>
                s\<lparr>orgs := (orgs s)(n \<mapsto> d\<lparr>teams := filter (\<lambda>t'. t' \<noteq> the team) (teams d),
                                           teamMembers := (teamMembers d)(the team := None)\<rparr>)\<rparr>
            | None \<Rightarrow> s)
         else s)
      else if t = ''team:add-user'' then
        (let scopeTeam = p ''scopeTeam''; user = p ''user'' in
         if truthy scopeTeam \<and> truthy user then
           (let (scope, team) = scope_and_team (the scopeTeam) in
            if truthy scope \<and> truthy team then
              (let n = normalizedOrg (the scope) in
               case orgs s n of
                 Some d \<Rightarrow>
                   (let members = (case teamMembers d (the team) of Some m \<Rightarrow> m | None \<Rightarrow> []);
                        members1 = (if the user \<in> set members then members else members @ [the user])
                    in s\<lparr>orgs := (orgs s)(n \<mapsto> d\<lparr>teamMembers := (teamMembers d)(the team \<mapsto> members1)\<rparr>)\<rparr>)
               | None \<Rightarrow> s)
            else s)
         else s)
      else if t = ''team:rm-user'' then
        (let scopeTeam = p ''scopeTeam''; user = p ''user'' in
         if truthy scopeTeam \<and> truthy user then
           (let (scope, team) = scope_and_team (the scopeTeam) in
            if truthy scope \<and> truthy team then
              (let n = normalizedOrg (the scope) in
               case orgs s n of
                 Some d \<Rightarrow>
                   (case teamMembers d (the team) of
                      Some members \<Rightarrow>
                        s\<lparr>orgs := (orgs s)(n \<mapsto> d\<lparr>teamMembers :=
                             (teamMembers d)(the team \<mapsto> filter (\<lambda>u. u \<noteq> the user) members)\<rparr>)\<rparr>
                    | None \<Rightarrow> s)
               | None \<Rightarrow> s)
            else s)
         else s)
      else if t = ''access:grant'' then
        (let pkg = p ''package''; user = p ''user'';
             level = (case p ''level'' of Some l \<Rightarrow> l | None \<Rightarrow> ''read-write'') in
         if truthy pkg \<and> truthy user then
           (let d = package_or_new s (the pkg)
            in s\<lparr>packages := (packages s)(the pkg \<mapsto> d\<lparr>collaborators := (collaborators d)(the user \<mapsto> level)\<rparr>)\<rparr>)
         else s)
      else if t = ''access:revoke'' \<or> t = ''owner:rm'' then
        (let pkg = p ''package''; user = p ''user'' in
         if truthy pkg \<and> truthy user then
           (case packages s (the pkg) of
              Some d \<Rightarrow>
                s\<lparr>packages := (packages s)(the pkg \<mapsto> d\<lparr>collaborators := (collaborators d)(the user := None)\<rparr>)\<rparr>
            | None \<Rightarrow> s)
         else s)
      else if t = ''owner:add'' then
        (let pkg = p ''package''; user = p ''user'' in
         if truthy pkg \<and> truthy user then
           (let d = package_or_new s (the pkg)
            in s\<lparr>packages := (packages s)(the pkg \<mapsto>
                   d\<lparr>collaborators := (collaborators d)(the user \<mapsto> ''read-write'')\<rparr>)\<rparr>)
         else s)
      else if t = ''package:init'' then
        (let pkg = p ''package'' in
         if truthy pkg then
           s\<lparr>packages := (packages s)(the pkg \<mapsto>
                 \<lparr>collaborators = [mock_npmUser (config s) \<mapsto> ''read-write'']\<rparr>),
             userPackages := (userPackages s)(the pkg \<mapsto> ''read-write'')\<rparr>
         else s)
      else s)"

subsection \<open>Dependency order\<close>

text \<open>
  \<open>sortByDependencies\<close> receives an array of references into the queue. \<open>ops\<close> is
  the queue that holds the objects, \<open>refs\<close> the array. The closure \<open>visit\<close> updates
  the set \<open>visited\<close> and the array \<open>result\<close>; both are threaded through.
\<close>

text \<open>\<^verbatim>\<open>operations.find(d => d.id === op.dependsOn)\<close>, tried when \<^verbatim>\<open>op.dependsOn\<close> is truthy.\<close>

definition dependency :: "PendingOperation list \<Rightarrow> opref list \<Rightarrow> opref \<Rightarrow> opref option" where
  "dependency ops refs r =
     (if truthy (dependsOn (ops ! r))
      then find (\<lambda>d. Some (op_id (ops ! d)) = dependsOn (ops ! r)) refs
      else None)"

definition push :: "opref \<Rightarrow> string set \<times> opref list \<Rightarrow> string set \<times> opref list" where
  "push r st = (fst st, snd st @ [r])"

text \<open>
  The closure calls itself once for each step along a chain of \<^verbatim>\<open>dependsOn\<close>, and the
  engine that runs it has a call stack of bounded depth: a call for which there is no
  room throws a \<^verbatim>\<open>RangeError\<close> (maximum call stack size exceeded), which neither
  \<open>sortByDependencies\<close> nor \<open>executeOperations\<close> catches. \<open>stack\<close> is the number of nested
  calls of \<open>visit\<close> for which the call stack has room when \<open>sortByDependencies\<close> is
  called; it is an input of the model, as the clock is.
\<close>

datatype js_error = RangeError

fun visit ::
  "nat \<Rightarrow> PendingOperation list \<Rightarrow> opref list \<Rightarrow> opref \<Rightarrow> string set \<times> opref list
   \<Rightarrow> js_error + string set \<times> opref list" where
  "visit stack ops refs r (visited, result') =
     (if stack = 0 then Inl RangeError
      else if op_id (ops ! r) \<in> visited then Inr (visited, result')
      else
        case dependency ops refs r of
          Some dep \<Rightarrow>
            (case visit (stack - 1) ops refs dep (insert (op_id (ops ! r)) visited, result') of
               Inl e \<Rightarrow> Inl e
             | Inr st \<Rightarrow> Inr (push r st))
        | None \<Rightarrow> Inr (push r (insert (op_id (ops ! r)) visited, result')))"

text \<open>The loop \<^verbatim>\<open>for (const op of operations) visit(op)\<close>, which an exception leaves.\<close>

fun visit_all ::
  "nat \<Rightarrow> PendingOperation list \<Rightarrow> opref list \<Rightarrow> opref list \<Rightarrow> string set \<times> opref list
   \<Rightarrow> js_error + string set \<times> opref list" where
  "visit_all stack ops refs [] st = Inr st"
| "visit_all stack ops refs (r # rs) st =
     (case visit stack ops refs r st of
        Inl e \<Rightarrow> Inl e
      | Inr st' \<Rightarrow> visit_all stack ops refs rs st')"

definition sortByDependencies ::
  "nat \<Rightarrow> PendingOperation list \<Rightarrow> opref list \<Rightarrow> js_error + opref list" where
  "sortByDependencies stack ops refs =
     (case visit_all stack ops refs refs ({}, []) of
        Inl e \<Rightarrow> Inl e
      | Inr st \<Rightarrow> Inr (snd st))"

subsection \<open>Execution\<close>

text \<open>\<^verbatim>\<open>options?.results?.[op.id]\<close>\<close>

definition configuredResult :: "ExecuteOptions option \<Rightarrow> PendingOperation \<Rightarrow> PartialResult option" where
  "configuredResult options op =
     (case options of
        None \<Rightarrow> None
      | Some opts \<Rightarrow> (case opt_results opts of None \<Rightarrow> None | Some m \<Rightarrow> m (op_id op)))"

text \<open>\<^verbatim>\<open>options?.otp\<close>\<close>

definition options_otp :: "ExecuteOptions option \<Rightarrow> string option" where
  "options_otp options = (case options of None \<Rightarrow> None | Some opts \<Rightarrow> opt_otp opts)"

text \<open>
  The test at the head of the loop body: \<^verbatim>\<open>op.dependsOn\<close> is truthy and the first
  operation of the queue with that id is missing or not completed.
\<close>

definition dependency_unmet :: "PendingOperation list \<Rightarrow> PendingOperation \<Rightarrow> bool" where
  "dependency_unmet ops op =
     (truthy (dependsOn op) \<and>
      (case find (\<lambda>d. Some (op_id d) = dependsOn op) ops of
         None \<Rightarrow> True
       | Some dep \<Rightarrow> status dep \<noteq> Completed))"

definition from_configured :: "PartialResult \<Rightarrow> OperationResult" where
  "from_configured c =
     \<lparr>stdout = (case p_stdout c of Some x \<Rightarrow> x | None \<Rightarrow> []),
      stderr = (case p_stderr c of Some x \<Rightarrow> x | None \<Rightarrow> []),
      exitCode = CodeNum (case p_exitCode c of Some x \<Rightarrow> x | None \<Rightarrow> 1),
      requiresOtp = p_requiresOtp c,
      authFailure = p_authFailure c\<rparr>"

definition default_result :: "PendingOperation \<Rightarrow> OperationResult" where
  "default_result op =
     \<lparr>stdout = ''Mock: '' @ command op, stderr = [], exitCode = CodeNum 0,
      requiresOtp = None, authFailure = None\<rparr>"

text \<open>Writes through the reference \<open>r\<close>: \<^verbatim>\<open>op.status = st\<close> and \<^verbatim>\<open>op.result = res\<close>.\<close>

definition set_status :: "opref \<Rightarrow> OperationStatus \<Rightarrow> MockConnectorStateData \<Rightarrow> MockConnectorStateData" where
  "set_status r st s =
     s\<lparr>mock_operations := (mock_operations s)[r := (mock_operations s ! r)\<lparr>status := st\<rparr>]\<rparr>"

definition set_result :: "opref \<Rightarrow> OperationResult \<Rightarrow> MockConnectorStateData \<Rightarrow> MockConnectorStateData" where
  "set_result r res s =
     s\<lparr>mock_operations := (mock_operations s)[r := (mock_operations s ! r)\<lparr>result := Some res\<rparr>]\<rparr>"

text \<open>
  The \<^verbatim>\<open>for\<close> loop of \<open>executeOperations\<close> over the sorted references. \<^verbatim>\<open>continue\<close>
  goes on with the rest, the \<^verbatim>\<open>return\<close> inside the loop leaves it.
\<close>

fun execute_ops ::
  "ExecuteOptions option \<Rightarrow> opref list \<Rightarrow> MockConnectorStateData \<Rightarrow> OperationResult list
   \<Rightarrow> ExecuteResult \<times> MockConnectorStateData" where
  "execute_ops options [] s acc = (\<lparr>results = acc, otpRequired = None\<rparr>, s)"
| "execute_ops options (r # rs) s acc =
     (if dependency_unmet (mock_operations s) (mock_operations s ! r)
      then execute_ops options rs s acc
      else
        let s1 = set_status r Running s in
        case configuredResult options (mock_operations s1 ! r) of
          Some c \<Rightarrow>
            let res = from_configured c;
                s2 = set_result r res s1;
                s3 = set_status r (if exitCode res = CodeNum 0 then Completed else Failed) s2;
                acc' = acc @ [res]
            in if requiresOtp res = Some True \<and> \<not> truthy (options_otp options)
               then (\<lparr>results = acc', otpRequired = Some True\<rparr>, s3)
               else execute_ops options rs s3 acc'
        | None \<Rightarrow>
            let res = default_result (mock_operations s1 ! r);
                s2 = set_result r res s1;
                s3 = set_status r Completed s2;
                acc' = acc @ [res];
                s4 = applyOperationEffect (mock_operations s3 ! r) s3
            in execute_ops options rs s4 acc')"

text \<open>
  \<open>executeOperations\<close> writes nothing before it sorts, and the sort writes to its own
  \<open>visited\<close> and \<open>result\<close> only: when the sort throws, the call throws and the state is
  what it was.
\<close>

definition executeOperations ::
  "nat \<Rightarrow> ExecuteOptions option \<Rightarrow> MockConnectorStateData
   \<Rightarrow> js_error + ExecuteResult \<times> MockConnectorStateData" where
  "executeOperations stack options s =
     (let approved = refs_with_status Approved (mock_operations s)
      in case sortByDependencies stack (mock_operations s) approved of
           Inl e \<Rightarrow> Inl e
         | Inr sorted' \<Rightarrow> Inr (execute_ops options sorted' s []))"

definition reset :: "MockConnectorStateData \<Rightarrow> MockConnectorStateData" where
  "reset s = s\<lparr>connected := False, mock_connectedAt := None, orgs := Map.empty,
              packages := Map.empty, userPackages := Map.empty, userOrgs := [],
              mock_operations := [], operationIdCounter := 0\<rparr>"

section \<open>Predicates and sample inputs of the verification\<close>

text \<open>A string that does not end in white space.\<close>

definition no_trailing_space :: "string \<Rightarrow> bool" where
  "no_trailing_space s = (s = [] \<or> \<not> is_space (last s))"

text \<open>Sample inputs, on which the theorems below are instantiated.\<close>

definition sample_env :: env where
  "sample_env =
     \<lparr>clock = (\<lambda>k. 1700000000000 + int k),
      random_id = (\<lambda>k. ''id-'' @ show_nat k),
      execAsync = (\<lambda>k cmd. Resolved (''alice'' @ [CHR 0x0A]) [])\<rparr>"

definition sample_config :: MockConnectorConfig where
  "sample_config = \<lparr>mock_token = ''s3cret'', mock_npmUser = ''testuser'', avatar = None, port = None\<rparr>"

definition sample_op :: "string \<Rightarrow> OperationStatus \<Rightarrow> string option \<Rightarrow> PendingOperation" where
  "sample_op i st dep =
     \<lparr>op_id = i, op_type = ''org:add-user'',
      params = [''org'' \<mapsto> ''@acme'', ''user'' \<mapsto> ''bob'', ''role'' \<mapsto> ''developer''],
      description = ''Add bob'', command = ''npm org set @acme bob developer'',
      status = st, createdAt = 0, dependsOn = dep, result = None\<rparr>"

definition sample_queue :: "PendingOperation list \<Rightarrow> MockConnectorStateData" where
  "sample_queue ops = (createMockConnectorState sample_config)\<lparr>mock_operations := ops\<rparr>"

text \<open>
  Two rejections of \<^verbatim>\<open>execAsync\<close>: the child killed at the timeout (no code), and the child
  that could not be started (the error Node emits has the code \<^verbatim>\<open>'ENOENT'\<close>).
\<close>

definition timed_out :: "string \<Rightarrow> exec_outcome" where
  "timed_out cmd = Rejected (Some ''partial  '') (Some (''npm ERR! killed'' @ [CHR 0x0A])) None ''Error: Command failed''"

definition spawn_failed :: "string \<Rightarrow> exec_outcome" where
  "spawn_failed cmd = Rejected (Some []) (Some []) (Some (CodeStr ''ENOENT'')) ''Error: spawn /bin/sh ENOENT''"

text \<open>An exit code of the shape the interface \<^verbatim>\<open>NpmExecResult\<close> declares: a number.\<close>

fun is_number :: "exit_code \<Rightarrow> bool" where
  "is_number (CodeNum n) = True"
| "is_number (CodeStr x) = False"



text \<open>What holds of \<open>visited\<close> and \<open>result\<close> between two iterations of the loop over the array.\<close>

definition sort_inv :: "PendingOperation list \<Rightarrow> opref list \<Rightarrow> string set \<times> opref list \<Rightarrow> bool" where
  "sort_inv ops refs st =
     (fst st = (\<lambda>x. op_id (ops ! x)) ` set (snd st)
      \<and> distinct (map (\<lambda>x. op_id (ops ! x)) (snd st))
      \<and> set (snd st) \<subseteq> set refs)"




text \<open>
  One iteration of the loop of \<open>executeOperations\<close> on an operation whose dependency is
  met, without the test that leaves the loop: the result it records and the state after.
\<close>

definition run_one :: "ExecuteOptions option \<Rightarrow> opref \<Rightarrow> MockConnectorStateData \<Rightarrow> OperationResult \<times> MockConnectorStateData" where
  "run_one options r s =
     (let s1 = set_status r Running s in
      case configuredResult options (mock_operations s1 ! r) of
        Some c \<Rightarrow>
          (from_configured c,
           set_status r (if exitCode (from_configured c) = CodeNum 0 then Completed else Failed)
             (set_result r (from_configured c) s1))
      | None \<Rightarrow>
          (let res = default_result (mock_operations s1 ! r);
               s3 = set_status r Completed (set_result r res s1)
           in (res, applyOperationEffect (mock_operations s3 ! r) s3)))"

text \<open>An operation after it ran with the result \<open>res\<close>.\<close>

definition finished :: "OperationResult \<Rightarrow> PendingOperation \<Rightarrow> PendingOperation" where
  "finished res op = op\<lparr>result := Some res, status := (if exitCode res = CodeNum 0 then Completed else Failed)\<rparr>"

text \<open>
  A later queue \<open>ops'\<close> of the same operations as \<open>ops\<close>: same length, same ids, and
  what was completed is completed.
\<close>

definition extends :: "PendingOperation list \<Rightarrow> PendingOperation list \<Rightarrow> bool" where
  "extends ops ops' =
     (length ops' = length ops
      \<and> (\<forall>i < length ops. op_id (ops' ! i) = op_id (ops ! i)
            \<and> (status (ops ! i) = Completed \<longrightarrow> status (ops' ! i) = Completed)))"

text \<open>
  The state of the store after a call of \<open>executeOperations\<close> in the state \<open>s\<close>: the state
  the call returns with, and \<open>s\<close> itself when the call throws.
\<close>

definition state_after ::
  "MockConnectorStateData \<Rightarrow> js_error + ExecuteResult \<times> MockConnectorStateData \<Rightarrow> MockConnectorStateData" where
  "state_after s out = (case out of Inl e \<Rightarrow> s | Inr res \<Rightarrow> snd res)"

text \<open>What a call of \<open>executeOperations\<close> returns, if it returns.\<close>

definition returned ::
  "js_error + ExecuteResult \<times> MockConnectorStateData \<Rightarrow> ExecuteResult option" where
  "returned out = (case out of Inl e \<Rightarrow> None | Inr res \<Rightarrow> Some (fst res))"

text \<open>
  Any number of calls of \<open>executeOperations\<close>, one after the other, each with the room
  its call stack has and its options.
\<close>

definition execute_calls ::
  "(nat \<times> ExecuteOptions option) list \<Rightarrow> MockConnectorStateData \<Rightarrow> MockConnectorStateData" where
  "execute_calls calls s =
     fold (\<lambda>(stack, options) s'. state_after s' (executeOperations stack options s')) calls s"

text \<open>The transitions of the status of an operation that the lifecycle allows.\<close>

fun lifecycle :: "OperationStatus \<Rightarrow> OperationStatus \<Rightarrow> bool" where
  "lifecycle Pending Approved = True"
| "lifecycle Approved Running = True"
| "lifecycle Running Completed = True"
| "lifecycle Running Failed = True"
| "lifecycle Failed Approved = True"
| "lifecycle _ _ = False"

text \<open>The calls on the store that write a status, and the state after each.\<close>

datatype call = Approve string | ApproveAll | Retry string | Execute nat "ExecuteOptions option"

fun perform :: "call \<Rightarrow> MockConnectorStateData \<Rightarrow> MockConnectorStateData" where
  "perform (Approve i) s = snd (approveOperation i s)"
| "perform ApproveAll s = snd (approveAll s)"
| "perform (Retry i) s = snd (retryOperation i s)"
| "perform (Execute stack options) s = state_after s (executeOperations stack options s)"

text \<open>The change of status, from before a call to after it, that each call may make.\<close>

fun call_step :: "call \<Rightarrow> OperationStatus \<Rightarrow> OperationStatus \<Rightarrow> bool" where
  "call_step (Approve i) a b = (a = Pending \<and> b = Approved)"
| "call_step ApproveAll a b = (a = Pending \<and> b = Approved)"
| "call_step (Retry i) a b = (a = Failed \<and> b = Approved)"
| "call_step (Execute stack options) a b = (a = Approved \<and> (b = Completed \<or> b = Failed))"

text \<open>
  A queue in which the first operation waits for the second, which is not approved, and
  the same queue after the third operation ran.
\<close>

definition waiting_ops :: "PendingOperation list" where
  "waiting_ops = [sample_op ''op-1'' Approved (Some ''op-2''), sample_op ''op-2'' Pending None,
                  sample_op ''op-3'' Approved None]"

definition waited_ops :: "PendingOperation list" where
  "waited_ops = [sample_op ''op-1'' Approved (Some ''op-2''), sample_op ''op-2'' Pending None,
       finished (default_result (sample_op ''op-3'' Approved None)) (sample_op ''op-3'' Approved None)]"

definition mixed_ops :: "PendingOperation list" where
  "mixed_ops = [sample_op ''op-1'' Pending None, sample_op ''op-2'' Failed None,
                sample_op ''op-3'' Completed None]"

text \<open>
  Three approved operations and execution options that give no one-time password and
  configure, for the second operation, a result that asks for one.
\<close>

definition otp_ops :: "PendingOperation list" where
  "otp_ops = [sample_op ''op-1'' Approved None, sample_op ''op-2'' Approved None,
              sample_op ''op-3'' Approved None]"

definition otp_options :: "ExecuteOptions option" where
  "otp_options = Some \<lparr>opt_otp = None,
     opt_results = Some [''op-2'' \<mapsto> \<lparr>p_stdout = None, p_stderr = Some ''EOTP'', p_exitCode = None,
                                      p_requiresOtp = Some True, p_authFailure = None\<rparr>]\<rparr>"

text \<open>
  The invariant of the queue that \<open>addOperation\<close> establishes: the ids are distinct, and
  each is \<^verbatim>\<open>op-\<close> followed by a number up to the counter. \<open>apply_call\<close> is the state
  after a call of the state manager.
\<close>

definition ids_fresh :: "MockConnectorStateData \<Rightarrow> bool" where
  "ids_fresh s =
     (distinct (map op_id (mock_operations s))
      \<and> (\<forall>i \<in> set (map op_id (mock_operations s)).
            \<exists>k. k \<le> operationIdCounter s \<and> i = ''op-'' @ show_nat k))"

datatype manager_call =
  Connect string int
| Disconnect
| AddOperation NewOperationInput int
| RemoveOperation string
| ClearOperations
| ApproveOperation string
| ApproveAllOperations
| RetryOperation string
| ExecuteOperations nat "ExecuteOptions option"
| Reset

fun apply_call :: "manager_call \<Rightarrow> MockConnectorStateData \<Rightarrow> MockConnectorStateData" where
  "apply_call (Connect tok now) s = snd (connect tok now s)"
| "apply_call Disconnect s = disconnect s"
| "apply_call (AddOperation operation now) s = snd (addOperation operation now s)"
| "apply_call (RemoveOperation i) s = snd (removeOperation i s)"
| "apply_call ClearOperations s = snd (clearOperations s)"
| "apply_call (ApproveOperation i) s = snd (approveOperation i s)"
| "apply_call ApproveAllOperations s = snd (approveAll s)"
| "apply_call (RetryOperation i) s = snd (retryOperation i s)"
| "apply_call (ExecuteOperations stack options) s = state_after s (executeOperations stack options s)"
| "apply_call Reset s = reset s"

section \<open>Verification\<close>

subsection \<open>The auth gate\<close>

text \<open>
  C4. The claim: the gate rejects a request whose Authorization header is absent,
  malformed (not of the form \<^verbatim>\<open>Bearer <token>\<close>) or carries a token other than the
  secret. \<open>validateToken\<close> removes the first occurrence of \<^verbatim>\<open>'Bearer '\<close> from the header,
  wherever it stands, and does not ask for it: a header that is the bare secret, with no
  scheme, passes. The gate of the test server (\<^verbatim>\<open>requireAuth\<close> in
  \<^verbatim>\<open>tests/helpers/fixtures.ts\<close>) rejects every header that does not start with
  \<^verbatim>\<open>'Bearer '\<close>.
\<close>

theorem validateToken_accepts_header_without_scheme:
  "validateToken ''s3cret'' (Some ''s3cret'') = True"
  by (simp add: validateToken_def)

subsection \<open>Connecting\<close>

text \<open>
  C5. A \<open>connect\<close> with a token that differs from the configured secret fails with
  status 401 and leaves the whole state as it was, in the server (\<^verbatim>\<open>POST /connect\<close>,
  also when the body or its token is absent) and in the mock state manager (which
  answers \<open>False\<close>).
\<close>

theorem connect_wrong_token_no_mutation:
  assumes "tok \<noteq> secret" and "mock_token (config s) = secret"
  shows "connect_handler secret e (Some \<lparr>body_token = Some tok\<rparr>) c
           = (Inl (HttpError 401 ''Invalid token''), c)
       \<and> connect_handler secret e (Some \<lparr>body_token = None\<rparr>) c
           = (Inl (HttpError 401 ''Invalid token''), c)
       \<and> connect_handler secret e None c = (Inl (HttpError 401 ''Invalid token''), c)
       \<and> connect tok now s = (False, s)"
  using assms by (simp add: connect_handler_def connect_def)

theorem connect_wrong_token_no_mutation_witness:
  "connect_handler ''s3cret'' sample_env (Some \<lparr>body_token = Some ''guess''\<rparr>) (initial_state ''s3cret'')
     = (Inl (HttpError 401 ''Invalid token''), initial_state ''s3cret'')
   \<and> npmUser (session (snd (connect_handler ''s3cret'' sample_env
        (Some \<lparr>body_token = Some ''guess''\<rparr>) (initial_state ''s3cret'')))) = None
   \<and> connect ''guess'' 5 (sample_queue []) = (False, sample_queue [])"
  using connect_wrong_token_no_mutation
    [of "''guess''" "''s3cret''" "sample_queue []" sample_env "initial_state ''s3cret''" 5]
  by (simp add: sample_queue_def sample_config_def createMockConnectorState_def initial_state_def)

subsection \<open>Approving everything\<close>

lemma approveAll_loop_eq:
  "approveAll_loop ops c =
     (map (\<lambda>op. if status op = Pending then op\<lparr>status := Approved\<rparr> else op) ops,
      c + length (filter (\<lambda>op. status op = Pending) ops))"
  by (induction ops arbitrary: c) auto

lemma approve_refs_length: "length (approve_refs rs ops) = length ops"
  by (induction rs arbitrary: ops) auto

lemma approve_refs_nth:
  "i < length ops \<Longrightarrow>
   approve_refs rs ops ! i = (if i \<in> set rs then (ops ! i)\<lparr>status := Approved\<rparr> else ops ! i)"
proof (induction rs arbitrary: ops)
  case Nil
  then show ?case by simp
next
  case (Cons r rs)
  have len: "i < length (ops[r := (ops ! r)\<lparr>status := Approved\<rparr>])" using Cons.prems by simp
  show ?case
  proof (cases "i = r")
    case True
    then show ?thesis using Cons.IH [OF len] Cons.prems by simp
  next
    case False
    then show ?thesis using Cons.IH [OF len] Cons.prems by simp
  qed
qed

lemma approve_refs_pending:
  "approve_refs (refs_with_status Pending ops) ops =
   map (\<lambda>op. if status op = Pending then op\<lparr>status := Approved\<rparr> else op) ops"
  by (rule nth_equalityI) (auto simp: approve_refs_length approve_refs_nth refs_with_status_def)

lemma refs_with_status_length:
  "length (refs_with_status st ops) = length (filter (\<lambda>op. status op = st) ops)"
proof -
  have "map ((!) ops) (refs_with_status st ops)
        = filter (\<lambda>op. status op = st) (map ((!) ops) [0..<length ops])"
    by (simp add: refs_with_status_def filter_map comp_def)
  then have "length (map ((!) ops) (refs_with_status st ops))
        = length (filter (\<lambda>op. status op = st) ops)"
    by (simp add: map_nth)
  then show ?thesis by simp
qed

text \<open>
  C6. \<open>approveAll\<close> returns the number of operations that are pending at the call, turns
  exactly those into approved ones and leaves every other operation as it is. The same
  holds of \<^verbatim>\<open>POST /approve-all\<close> of the server once the auth gate has let the request in.
\<close>

theorem approveAll_counts_pending:
  "approveAll s =
     (length (filter (\<lambda>op. status op = Pending) (mock_operations s)),
      s\<lparr>mock_operations :=
          map (\<lambda>op. if status op = Pending then op\<lparr>status := Approved\<rparr> else op) (mock_operations s)\<rparr>)
   \<and> approve_all_handler tok auth c =
     (if validateToken tok auth
      then (Inr (ApprovedCount (length (filter (\<lambda>op. status op = Pending) (operations c)))),
            c\<lparr>operations :=
                map (\<lambda>op. if status op = Pending then op\<lparr>status := Approved\<rparr> else op) (operations c)\<rparr>)
      else (Inl unauthorized, c))"
  by (simp add: approveAll_def approveAll_loop_eq approve_all_handler_def Let_def
      approve_refs_pending refs_with_status_length)

theorem approveAll_counts_pending_witness:
  "fst (approveAll (sample_queue
      [sample_op ''op-1'' Pending None, sample_op ''op-2'' Failed None, sample_op ''op-3'' Pending None])) = 2
   \<and> map status (mock_operations (snd (approveAll (sample_queue
      [sample_op ''op-1'' Pending None, sample_op ''op-2'' Failed None, sample_op ''op-3'' Pending None]))))
     = [Approved, Failed, Approved]"
  using approveAll_counts_pending
    [of "sample_queue [sample_op ''op-1'' Pending None, sample_op ''op-2'' Failed None,
           sample_op ''op-3'' Pending None]"]
  by (simp add: sample_queue_def sample_op_def)

subsection \<open>The command executor\<close>

lemma trim_no_trailing_space: "no_trailing_space (trim s)"
proof -
  let ?u = "dropWhile is_space (rev (dropWhile is_space s))"
  have "?u = [] \<or> \<not> is_space (hd ?u)"
    using hd_dropWhile [of is_space "rev (dropWhile is_space s)"] by blast
  then show ?thesis
    by (auto simp: no_trailing_space_def trim_def last_rev)
qed

text \<open>
  What holds of every rejection: \<open>execNpm\<close> is a total function of the outcome of the child
  process, so a rejection of \<^verbatim>\<open>execAsync\<close> is caught and turned into a result; unless the
  error carries the number 0, the exit code of the result is not the number 0 (it is 1
  when the error has none); and each captured stream is in the result, trimmed.
\<close>

lemma execNpm_rejection_result:
  assumes "ex (npm_cmd args otp') = Rejected out err code msg" and "code \<noteq> Some (CodeNum 0)"
  shows "exitCode (execNpm ex args otp') \<noteq> CodeNum 0
       \<and> exitCode (execNpm ex args otp') = (case code of Some c \<Rightarrow> c | None \<Rightarrow> CodeNum 1)
       \<and> stdout (execNpm ex args otp') = (case out of Some x \<Rightarrow> trim x | None \<Rightarrow> [])
       \<and> stderr (execNpm ex args otp') = (case err of Some x \<Rightarrow> trim x | None \<Rightarrow> msg)
       \<and> no_trailing_space (stdout (execNpm ex args otp'))
       \<and> (err \<noteq> None \<longrightarrow> no_trailing_space (stderr (execNpm ex args otp')))"
  using assms trim_no_trailing_space
  by (auto simp: execNpm_def no_trailing_space_def split: option.splits)

lemma execNpm_timed_out:
  "exitCode (execNpm timed_out [''org'', ''rm'', ''@acme'', ''bob''] (Some ''123456'')) = CodeNum 1
   \<and> stdout (execNpm timed_out [''org'', ''rm'', ''@acme'', ''bob''] (Some ''123456'')) = ''partial''
   \<and> stderr (execNpm timed_out [''org'', ''rm'', ''@acme'', ''bob''] (Some ''123456'')) = ''npm ERR! killed''"
  by (simp add: timed_out_def execNpm_def trim_def is_space_def)

text \<open>
  C7. The claim: every failure path of \<open>execNpm\<close>, the failure to start the child among
  them, resolves to a well-formed result \<^verbatim>\<open>{stdout, stderr, exitCode}\<close> with an exit code
  other than 0. The interface \<^verbatim>\<open>NpmExecResult\<close> declares \<^verbatim>\<open>exitCode: number\<close>, and the
  \<^verbatim>\<open>catch\<close> branch reads the code of the error as a number. When the child cannot be
  started the code of the error is the string \<^verbatim>\<open>'ENOENT'\<close>, and \<^verbatim>\<open>err.code ?? 1\<close> makes
  that string the exit code of the result: no exception leaves \<open>execNpm\<close>, but the
  result is not of the declared shape.
\<close>

theorem execNpm_spawn_failure_exit_code_is_a_string:
  "exitCode (execNpm spawn_failed [''whoami''] None) = CodeStr ''ENOENT''
   \<and> is_number (exitCode (execNpm spawn_failed [''whoami''] None)) = False"
  by (simp add: execNpm_def spawn_failed_def)

subsection \<open>The one-time password holder\<close>

lemma execute_loop_frame:
  "otp (fst (execute_loop e k rs s acc)) = otp s
   \<and> session (fst (execute_loop e k rs s acc)) = session s"
  by (induction rs arbitrary: k s acc) (simp_all add: Let_def)

text \<open>
  C9. \<^verbatim>\<open>POST /execute\<close> reads the stored one-time password and does not write it: after
  the request the holder and the session (token, connectedAt, npmUser) are what they
  were. Of all the routes of the server only \<^verbatim>\<open>POST /otp\<close> changes the holder.
\<close>

theorem otp_written_only_by_otp_endpoint:
  "otp (snd (execute_handler tok e auth c)) = otp c
   \<and> session (snd (execute_handler tok e auth c)) = session c
   \<and> otp (snd (handle tok e req c)) =
       (case req of PostOtp a b \<Rightarrow> otp (snd (otp_handler tok a b c)) | _ \<Rightarrow> otp c)"
proof -
  have ex: "otp (snd (execute_handler tok e a c)) = otp c
      \<and> session (snd (execute_handler tok e a c)) = session c" for a
    using execute_loop_frame [of e 0 "refs_with_status Approved (operations c)" c "[]"]
    by (auto simp: execute_handler_def Let_def split: prod.splits)
  have "otp (snd (handle tok e req c)) =
       (case req of PostOtp a b \<Rightarrow> otp (snd (otp_handler tok a b c)) | _ \<Rightarrow> otp c)"
  proof (cases req)
    case (PostExecute a)
    then show ?thesis using ex [of a] by simp
  qed (simp_all add: connect_handler_def state_handler_def operations_handler_def
        batch_handler_def approve_handler_def approve_all_handler_def delete_handler_def
        delete_all_handler_def Let_def split: option.splits)
  then show ?thesis using ex [of auth] by simp
qed

text \<open>
  C10. An authenticated \<^verbatim>\<open>POST /otp\<close> whose body is absent, or has no \<^verbatim>\<open>otp\<close>
  property, sets the holder to \<^verbatim>\<open>null\<close>: it clears a one-time password stored before.
\<close>

theorem otp_request_without_value_clears:
  "otp_handler tok auth None c =
     (if validateToken tok auth then (Inr NoData, c\<lparr>otp := None\<rparr>) else (Inl unauthorized, c))
   \<and> otp_handler tok auth (Some \<lparr>body_otp = None\<rparr>) c =
     (if validateToken tok auth then (Inr NoData, c\<lparr>otp := None\<rparr>) else (Inl unauthorized, c))"
  by (simp add: otp_handler_def)

theorem otp_request_without_value_clears_witness:
  "otp (snd (otp_handler ''s3cret'' (Some ''Bearer s3cret'') None
       ((initial_state ''s3cret'')\<lparr>otp := Some ''123456''\<rparr>))) = None
   \<and> otp (snd (otp_handler ''s3cret'' (Some ''Bearer s3cret'') (Some \<lparr>body_otp = None\<rparr>)
       ((initial_state ''s3cret'')\<lparr>otp := Some ''123456''\<rparr>))) = None"
  using otp_request_without_value_clears
    [of "''s3cret''" "Some ''Bearer s3cret''" "(initial_state ''s3cret'')\<lparr>otp := Some ''123456''\<rparr>"]
  by (simp add: validateToken_def)

subsection \<open>Dependency order\<close>

declare visit.simps [simp del]

lemma dependency_in_refs: "dependency ops refs r = Some d \<Longrightarrow> d \<in> set refs"
  by (auto simp: dependency_def find_Some_iff split: if_splits)


text \<open>A call of \<open>visit\<close> for which the call stack has no room, and one for which it has.\<close>

lemma visit_0: "visit 0 ops refs r st = Inl RangeError"
  by (cases st) (simp add: visit.simps)

lemma visit_Suc:
  "visit (Suc k) ops refs r (V, R) =
     (if op_id (ops ! r) \<in> V then Inr (V, R)
      else
        case dependency ops refs r of
          Some dep \<Rightarrow>
            (case visit k ops refs dep (insert (op_id (ops ! r)) V, R) of
               Inl e \<Rightarrow> Inl e
             | Inr st \<Rightarrow> Inr (push r st))
        | None \<Rightarrow> Inr (insert (op_id (ops ! r)) V, R @ [r]))"
  by (simp add: visit.simps push_def split: option.splits)

lemma visit_Suc_dep:
  assumes "visit (Suc k) ops refs r (V, R) = Inr st"
    and "op_id (ops ! r) \<notin> V" and "dependency ops refs r = Some dep"
  shows "\<exists>st'. visit k ops refs dep (insert (op_id (ops ! r)) V, R) = Inr st' \<and> st = push r st'"
  using assms by (auto simp: visit_Suc split: sum.splits)

lemma visit_spec:
  "visit stack ops refs r (V, R) = Inr st \<Longrightarrow>
   \<exists>new. snd st = R @ new
       \<and> fst st = V \<union> (\<lambda>x. op_id (ops ! x)) ` set new
       \<and> (\<forall>x \<in> set new. op_id (ops ! x) \<notin> V)
       \<and> distinct (map (\<lambda>x. op_id (ops ! x)) new)
       \<and> set new \<subseteq> insert r (set refs)
       \<and> op_id (ops ! r) \<in> fst st"
proof (induction stack arbitrary: r V R st)
  case 0
  then show ?case by (simp add: visit_0)
next
  case (Suc k)
  show ?case
  proof (cases "op_id (ops ! r) \<in> V")
    case True
    then have "st = (V, R)" using Suc.prems by (simp add: visit_Suc)
    then show ?thesis using True by simp
  next
    case unvisited: False
    show ?thesis
    proof (cases "dependency ops refs r")
      case None
      then have st: "st = (insert (op_id (ops ! r)) V, R @ [r])"
        using unvisited Suc.prems by (simp add: visit_Suc)
      show ?thesis
        by (rule exI [of _ "[r]"]) (simp add: st unvisited)
    next
      case (Some dep)
      from visit_Suc_dep [OF Suc.prems unvisited Some]
      obtain st' where st': "visit k ops refs dep (insert (op_id (ops ! r)) V, R) = Inr st'"
        and v: "st = push r st'"
        by blast
      from Suc.IH [OF st']
      obtain new where n: "snd st' = R @ new"
        "fst st' = insert (op_id (ops ! r)) V \<union> (\<lambda>x. op_id (ops ! x)) ` set new"
        "\<forall>x \<in> set new. op_id (ops ! x) \<notin> insert (op_id (ops ! r)) V"
        "distinct (map (\<lambda>x. op_id (ops ! x)) new)"
        "set new \<subseteq> insert dep (set refs)"
        by blast
      have dep_in: "dep \<in> set refs" using Some by (rule dependency_in_refs)
      show ?thesis
      proof (intro exI [of _ "new @ [r]"] conjI)
        show "snd st = R @ new @ [r]"
          using v n(1) by (simp add: push_def)
        show "fst st = V \<union> (\<lambda>x. op_id (ops ! x)) ` set (new @ [r])"
          using v n(2) by (auto simp: push_def)
        show "\<forall>x \<in> set (new @ [r]). op_id (ops ! x) \<notin> V"
          using n(3) unvisited by auto
        show "distinct (map (\<lambda>x. op_id (ops ! x)) (new @ [r]))"
          using n(3,4) by auto
        show "set (new @ [r]) \<subseteq> insert r (set refs)"
          using n(5) dep_in by auto
        show "op_id (ops ! r) \<in> fst st"
          using v n(2) by (simp add: push_def)
      qed
    qed
  qed
qed



lemma visit_keeps_inv:
  assumes "sort_inv ops refs (V, R)" and "r \<in> set refs"
    and "visit stack ops refs r (V, R) = Inr st"
  shows "sort_inv ops refs st \<and> op_id (ops ! r) \<in> fst st \<and> V \<subseteq> fst st"
proof -
  from visit_spec [OF assms(3)]
  obtain new where n1: "snd st = R @ new"
      and n2: "fst st = V \<union> (\<lambda>x. op_id (ops ! x)) ` set new"
      and n3: "\<forall>x \<in> set new. op_id (ops ! x) \<notin> V"
      and n4: "distinct (map (\<lambda>x. op_id (ops ! x)) new)"
      and n5: "set new \<subseteq> insert r (set refs)"
      and n6: "op_id (ops ! r) \<in> fst st"
    by (elim exE conjE)
  have V: "V = (\<lambda>x. op_id (ops ! x)) ` set R"
    and dR: "distinct (map (\<lambda>x. op_id (ops ! x)) R)"
    and sR: "set R \<subseteq> set refs"
    using assms(1) by (simp_all add: sort_inv_def)
  have "op_id (ops ! a) \<noteq> op_id (ops ! b)" if "a \<in> set R" and "b \<in> set new" for a b
  proof
    assume eq: "op_id (ops ! a) = op_id (ops ! b)"
    have "op_id (ops ! a) \<in> V" unfolding V using that(1) by (rule imageI)
    then show False using n3 that(2) eq by simp
  qed
  then have "(\<lambda>x. op_id (ops ! x)) ` set R \<inter> (\<lambda>x. op_id (ops ! x)) ` set new = {}"
    by blast
  then have d: "distinct (map (\<lambda>x. op_id (ops ! x)) (R @ new))"
    using dR n4 by simp
  have f: "fst st = (\<lambda>x. op_id (ops ! x)) ` set (R @ new)"
    using n2 V by (simp add: image_Un)
  have sub: "set (R @ new) \<subseteq> set refs" using sR n5 assms(2) by auto
  have "sort_inv ops refs st"
    using d sub f n1 by (simp add: sort_inv_def)
  moreover have "V \<subseteq> fst st" using n2 by simp
  ultimately show ?thesis using n6 by simp
qed

lemma visit_all_Cons:
  assumes "visit_all stack ops refs (r # rs) st = Inr st'"
  shows "\<exists>st1. visit stack ops refs r st = Inr st1 \<and> visit_all stack ops refs rs st1 = Inr st'"
  using assms by (auto split: sum.splits)

lemma visit_all_inv:
  assumes "sort_inv ops refs st" and "set rs \<subseteq> set refs"
    and "visit_all stack ops refs rs st = Inr st'"
  shows "sort_inv ops refs st'
       \<and> fst st \<union> (\<lambda>x. op_id (ops ! x)) ` set rs \<subseteq> fst st'"
  using assms
proof (induction rs arbitrary: st)
  case Nil
  then show ?case by simp
next
  case (Cons r rs)
  obtain V R where st: "st = (V, R)" by (cases st)
  have r: "r \<in> set refs" and rs: "set rs \<subseteq> set refs" using Cons.prems(2) by auto
  from visit_all_Cons [OF Cons.prems(3)]
  obtain st1 where v: "visit stack ops refs r st = Inr st1"
    and rest: "visit_all stack ops refs rs st1 = Inr st'"
    by blast
  have step: "sort_inv ops refs st1" "op_id (ops ! r) \<in> fst st1" "fst st \<subseteq> fst st1"
    using visit_keeps_inv [OF Cons.prems(1) [unfolded st] r v [unfolded st]] by (simp_all add: st)
  from Cons.IH [OF step(1) rs rest] step(2,3) show ?case by auto
qed





lemma sortByDependencies_Inr:
  assumes "sortByDependencies stack ops refs = Inr out"
  shows "\<exists>st. visit_all stack ops refs refs ({}, []) = Inr st \<and> out = snd st"
  using assms by (auto simp: sortByDependencies_def split: sum.splits)

lemma sortByDependencies_sound:
  assumes "sortByDependencies stack ops refs = Inr out"
  shows "distinct out \<and> set out \<subseteq> set refs"
proof -
  from sortByDependencies_Inr [OF assms]
  obtain st where st: "visit_all stack ops refs refs ({}, []) = Inr st" "out = snd st" by blast
  have "sort_inv ops refs ({}, [])" by (simp add: sort_inv_def)
  then have "sort_inv ops refs st"
    using visit_all_inv [OF _ subset_refl st(1)] by simp
  then show ?thesis
    by (simp add: sort_inv_def st(2) distinct_map)
qed








subsection \<open>The execution loop of the mock\<close>

lemma applyOperationEffect_operations [simp]:
  "mock_operations (applyOperationEffect op s) = mock_operations s"
  by (simp add: applyOperationEffect_def Let_def split: option.splits prod.splits)

lemma execute_ops_Cons:
  "execute_ops options (r # rs) s acc =
     (if dependency_unmet (mock_operations s) (mock_operations s ! r)
      then execute_ops options rs s acc
      else if requiresOtp (fst (run_one options r s)) = Some True \<and> \<not> truthy (options_otp options)
      then (\<lparr>results = acc @ [fst (run_one options r s)], otpRequired = Some True\<rparr>,
            snd (run_one options r s))
      else execute_ops options rs (snd (run_one options r s)) (acc @ [fst (run_one options r s)]))"
  by (simp add: run_one_def Let_def default_result_def split: option.splits)

declare execute_ops.simps(2) [simp del]

lemma execute_ops_skip:
  "dependency_unmet (mock_operations s) (mock_operations s ! r)
   \<Longrightarrow> execute_ops options (r # rs) s acc = execute_ops options rs s acc"
  by (simp add: execute_ops_Cons)

lemma execute_ops_halt:
  "\<not> dependency_unmet (mock_operations s) (mock_operations s ! r)
   \<Longrightarrow> requiresOtp (fst (run_one options r s)) = Some True
   \<Longrightarrow> \<not> truthy (options_otp options)
   \<Longrightarrow> execute_ops options (r # rs) s acc
       = (\<lparr>results = acc @ [fst (run_one options r s)], otpRequired = Some True\<rparr>,
          snd (run_one options r s))"
  by (simp add: execute_ops_Cons)

lemma execute_ops_continue:
  "\<not> dependency_unmet (mock_operations s) (mock_operations s ! r)
   \<Longrightarrow> requiresOtp (fst (run_one options r s)) \<noteq> Some True \<or> truthy (options_otp options)
   \<Longrightarrow> execute_ops options (r # rs) s acc
       = execute_ops options rs (snd (run_one options r s)) (acc @ [fst (run_one options r s)])"
  by (auto simp: execute_ops_Cons)

lemma run_one_operations:
  assumes "r < length (mock_operations s)"
  shows "mock_operations (snd (run_one options r s))
       = (mock_operations s)[r := finished (fst (run_one options r s)) (mock_operations s ! r)]"
  using assms
  by (simp add: run_one_def Let_def set_status_def set_result_def finished_def default_result_def
      split: option.splits)

lemma refs_with_status_iff:
  "r \<in> set (refs_with_status st ops) \<longleftrightarrow> r < length ops \<and> status (ops ! r) = st"
  by (auto simp: refs_with_status_def)

lemma extends_refl: "extends ops ops"
  by (simp add: extends_def)

lemma extends_trans: "extends a b \<Longrightarrow> extends b c \<Longrightarrow> extends a c"
  by (simp add: extends_def)

lemma find_by_id_extends:
  assumes "extends ops ops'" and "find (\<lambda>d. Some (op_id d) = X) ops = Some dep"
  shows "\<exists>i < length ops. dep = ops ! i \<and> find (\<lambda>d. Some (op_id d) = X) ops' = Some (ops' ! i)"
proof -
  from assms(2) obtain i where i: "i < length ops" "Some (op_id (ops ! i)) = X" "dep = ops ! i"
    "\<forall>j < i. Some (op_id (ops ! j)) \<noteq> X"
    unfolding find_Some_iff by blast
  have len: "length ops' = length ops" and ids: "\<forall>k < length ops. op_id (ops' ! k) = op_id (ops ! k)"
    using assms(1) by (simp_all add: extends_def)
  have "find (\<lambda>d. Some (op_id d) = X) ops' = Some (ops' ! i)"
    unfolding find_Some_iff
  proof (intro exI [of _ i] conjI)
    show "i < length ops'" using i(1) len by simp
    show "Some (op_id (ops' ! i)) = X" using i(1,2) ids by simp
    show "ops' ! i = ops' ! i" by simp
    show "\<forall>j < i. Some (op_id (ops' ! j)) \<noteq> X" using i(1,4) ids by simp
  qed
  then show ?thesis using i(1,3) by blast
qed

lemma dependency_met_extends:
  assumes "\<not> dependency_unmet ops op" and "extends ops ops'"
  shows "\<not> dependency_unmet ops' op"
proof (cases "truthy (dependsOn op)")
  case False
  then show ?thesis by (simp add: dependency_unmet_def)
next
  case True
  then obtain dep where dep: "find (\<lambda>d. Some (op_id d) = dependsOn op) ops = Some dep"
      "status dep = Completed"
    using assms(1) by (auto simp: dependency_unmet_def split: option.splits)
  from find_by_id_extends [OF assms(2) dep(1)]
  obtain i where i: "i < length ops" "dep = ops ! i"
      "find (\<lambda>d. Some (op_id d) = dependsOn op) ops' = Some (ops' ! i)" by blast
  have "status (ops' ! i) = Completed"
    using assms(2) i(1,2) dep(2) by (simp add: extends_def)
  then show ?thesis using i(3) by (simp add: dependency_unmet_def)
qed

lemma finished_fields [simp]:
  "op_id (finished x op) = op_id op" "dependsOn (finished x op) = dependsOn op"
  "finished y (finished x op) = finished y op"
  "result (finished x op) = Some x"
  "status (finished x op) = (if exitCode x = CodeNum 0 then Completed else Failed)"
  by (simp_all add: finished_def)

lemma execute_ops_changes:
  assumes "\<forall>r \<in> set rs. r < length (mock_operations s)"
  shows "length (mock_operations (snd (execute_ops options rs s acc))) = length (mock_operations s)
       \<and> (\<forall>i < length (mock_operations s).
            mock_operations (snd (execute_ops options rs s acc)) ! i = mock_operations s ! i
            \<or> (i \<in> set rs \<and> (\<exists>x. mock_operations (snd (execute_ops options rs s acc)) ! i
                                   = finished x (mock_operations s ! i))))"
  using assms
proof (induction rs arbitrary: s acc)
  case Nil
  then show ?case by simp
next
  case (Cons r rs)
  let ?s1 = "snd (run_one options r s)"
  have r: "r < length (mock_operations s)" and rs: "\<forall>q \<in> set rs. q < length (mock_operations s)"
    using Cons.prems by simp_all
  have ops1: "mock_operations ?s1
      = (mock_operations s)[r := finished (fst (run_one options r s)) (mock_operations s ! r)]"
    using run_one_operations [OF r] .
  have rs1: "\<forall>q \<in> set rs. q < length (mock_operations ?s1)" using rs ops1 by simp
  consider (skip) "dependency_unmet (mock_operations s) (mock_operations s ! r)"
    | (halt) "\<not> dependency_unmet (mock_operations s) (mock_operations s ! r)"
        "requiresOtp (fst (run_one options r s)) = Some True" "\<not> truthy (options_otp options)"
    | (continue) "\<not> dependency_unmet (mock_operations s) (mock_operations s ! r)"
        "requiresOtp (fst (run_one options r s)) \<noteq> Some True \<or> truthy (options_otp options)"
    by blast
  then show ?case
  proof cases
    case skip
    then have "execute_ops options (r # rs) s acc = execute_ops options rs s acc"
      by (rule execute_ops_skip)
    then show ?thesis using Cons.IH [OF rs, of acc] by auto
  next
    case halt
    then have "snd (execute_ops options (r # rs) s acc) = ?s1"
      by (simp add: execute_ops_halt)
    then show ?thesis using ops1 r by (auto simp: nth_list_update)
  next
    case continue
    then have e: "execute_ops options (r # rs) s acc
        = execute_ops options rs ?s1 (acc @ [fst (run_one options r s)])"
      by (rule execute_ops_continue)
    let ?f = "mock_operations (snd (execute_ops options rs ?s1 (acc @ [fst (run_one options r s)])))"
    from Cons.IH [OF rs1, of "acc @ [fst (run_one options r s)]"]
    have len: "length ?f = length (mock_operations ?s1)"
      and ch: "\<forall>i < length (mock_operations ?s1). ?f ! i = mock_operations ?s1 ! i
            \<or> (i \<in> set rs \<and> (\<exists>x. ?f ! i = finished x (mock_operations ?s1 ! i)))"
      by simp_all
    have "?f ! i = mock_operations s ! i
        \<or> (i \<in> set (r # rs) \<and> (\<exists>x. ?f ! i = finished x (mock_operations s ! i)))"
      if i: "i < length (mock_operations s)" for i
    proof (cases "i = r")
      case True
      have at_r: "mock_operations ?s1 ! r = finished (fst (run_one options r s)) (mock_operations s ! r)"
        using ops1 r by simp
      have "r < length (mock_operations ?s1)" using ops1 r by simp
      then have "?f ! r = mock_operations ?s1 ! r \<or> (\<exists>x. ?f ! r = finished x (mock_operations ?s1 ! r))"
        using ch by blast
      then have "\<exists>x. ?f ! r = finished x (mock_operations s ! r)"
        unfolding at_r by (auto simp del: ex_simps)
      then show ?thesis using True by simp
    next
      case False
      have same: "mock_operations ?s1 ! i = mock_operations s ! i"
        using ops1 False by simp
      have "i < length (mock_operations ?s1)" using ops1 i by simp
      then have "?f ! i = mock_operations ?s1 ! i
          \<or> (i \<in> set rs \<and> (\<exists>x. ?f ! i = finished x (mock_operations ?s1 ! i)))"
        using ch by blast
      then show ?thesis unfolding same by auto
    qed
    then show ?thesis using len ops1 e by simp
  qed
qed

lemma execute_ops_extends:
  assumes "\<forall>r \<in> set rs. r < length (mock_operations s) \<and> status (mock_operations s ! r) = Approved"
  shows "extends (mock_operations s) (mock_operations (snd (execute_ops options rs s acc)))"
proof -
  let ?f = "mock_operations (snd (execute_ops options rs s acc))"
  have b: "\<forall>r \<in> set rs. r < length (mock_operations s)" using assms by simp
  from execute_ops_changes [OF b, of options acc]
  have len: "length ?f = length (mock_operations s)"
    and ch: "\<forall>i < length (mock_operations s). ?f ! i = mock_operations s ! i
          \<or> (i \<in> set rs \<and> (\<exists>x. ?f ! i = finished x (mock_operations s ! i)))"
    by simp_all
  have "op_id (?f ! i) = op_id (mock_operations s ! i)
      \<and> (status (mock_operations s ! i) = Completed \<longrightarrow> status (?f ! i) = Completed)"
    if i: "i < length (mock_operations s)" for i
  proof -
    from ch i consider "?f ! i = mock_operations s ! i"
      | x where "i \<in> set rs" "?f ! i = finished x (mock_operations s ! i)" by blast
    then show ?thesis
    proof cases
      case 1
      then show ?thesis by simp
    next
      case 2
      then have "status (mock_operations s ! i) = Approved" using assms by simp
      then show ?thesis using 2 by simp
    qed
  qed
  then show ?thesis using len by (simp add: extends_def)
qed

lemma execute_ops_dependency:
  assumes "distinct rs"
    and "\<forall>r \<in> set rs. r < length (mock_operations s) \<and> status (mock_operations s ! r) = Approved"
  shows "\<forall>i < length (mock_operations s).
           mock_operations (snd (execute_ops options rs s acc)) ! i \<noteq> mock_operations s ! i
           \<longrightarrow> \<not> dependency_unmet (mock_operations (snd (execute_ops options rs s acc)))
                   (mock_operations s ! i)"
  using assms
proof (induction rs arbitrary: s acc)
  case Nil
  then show ?case by simp
next
  case (Cons r rs)
  let ?s1 = "snd (run_one options r s)"
  let ?x = "fst (run_one options r s)"
  have r: "r < length (mock_operations s)" and r_app: "status (mock_operations s ! r) = Approved"
    and rs: "\<forall>q \<in> set rs. q < length (mock_operations s) \<and> status (mock_operations s ! q) = Approved"
    and d: "distinct rs" and r_notin: "r \<notin> set rs"
    using Cons.prems by simp_all
  have ops1: "mock_operations ?s1 = (mock_operations s)[r := finished ?x (mock_operations s ! r)]"
    using run_one_operations [OF r] .
  have rs1: "\<forall>q \<in> set rs. q < length (mock_operations ?s1) \<and> status (mock_operations ?s1 ! q) = Approved"
  proof
    fix q assume q: "q \<in> set rs"
    then have "q \<noteq> r" using r_notin by blast
    then have "mock_operations ?s1 ! q = mock_operations s ! q" using ops1 by simp
    then show "q < length (mock_operations ?s1) \<and> status (mock_operations ?s1 ! q) = Approved"
      using rs q ops1 by simp
  qed
  have ext1: "extends (mock_operations s) (mock_operations ?s1)"
    unfolding ops1 extends_def using r_app r by (auto simp: nth_list_update)
  consider (skip) "dependency_unmet (mock_operations s) (mock_operations s ! r)"
    | (halt) "\<not> dependency_unmet (mock_operations s) (mock_operations s ! r)"
        "requiresOtp ?x = Some True" "\<not> truthy (options_otp options)"
    | (continue) "\<not> dependency_unmet (mock_operations s) (mock_operations s ! r)"
        "requiresOtp ?x \<noteq> Some True \<or> truthy (options_otp options)"
    by blast
  then show ?case
  proof cases
    case skip
    then have "execute_ops options (r # rs) s acc = execute_ops options rs s acc"
      by (rule execute_ops_skip)
    then show ?thesis using Cons.IH [OF d rs, of acc] by simp
  next
    case halt
    then have e: "snd (execute_ops options (r # rs) s acc) = ?s1"
      by (simp add: execute_ops_halt)
    have "\<not> dependency_unmet (mock_operations ?s1) (mock_operations s ! i)"
      if "i < length (mock_operations s)" "mock_operations ?s1 ! i \<noteq> mock_operations s ! i" for i
    proof -
      have "i = r"
      proof (rule ccontr)
        assume "i \<noteq> r"
        then have "mock_operations ?s1 ! i = mock_operations s ! i" using ops1 by simp
        then show False using that(2) by simp
      qed
      then show ?thesis using dependency_met_extends [OF halt(1) ext1] by simp
    qed
    then show ?thesis unfolding e by blast
  next
    case continue
    then have e: "execute_ops options (r # rs) s acc = execute_ops options rs ?s1 (acc @ [?x])"
      by (rule execute_ops_continue)
    let ?f = "mock_operations (snd (execute_ops options rs ?s1 (acc @ [?x])))"
    have ih: "\<forall>i < length (mock_operations ?s1). ?f ! i \<noteq> mock_operations ?s1 ! i
          \<longrightarrow> \<not> dependency_unmet ?f (mock_operations ?s1 ! i)"
      using Cons.IH [OF d rs1, of "acc @ [?x]"] .
    have ext2: "extends (mock_operations ?s1) ?f"
      using execute_ops_extends [OF rs1] .
    have "\<not> dependency_unmet ?f (mock_operations s ! i)"
      if i: "i < length (mock_operations s)" and ne: "?f ! i \<noteq> mock_operations s ! i" for i
    proof (cases "i = r")
      case True
      have "\<not> dependency_unmet (mock_operations ?s1) (mock_operations s ! r)"
        using dependency_met_extends [OF continue(1) ext1] .
      then show ?thesis using dependency_met_extends [OF _ ext2] True by simp
    next
      case False
      then have same: "mock_operations ?s1 ! i = mock_operations s ! i" using ops1 by simp
      have "i < length (mock_operations ?s1)" using i ops1 by simp
      then show ?thesis using ih ne same by auto
    qed
    then show ?thesis unfolding e by blast
  qed
qed

lemma sorted_approved:
  assumes "sortByDependencies stack ops (refs_with_status Approved ops) = Inr rs"
  shows "distinct rs \<and> (\<forall>r \<in> set rs. r < length ops \<and> status (ops ! r) = Approved)"
  using sortByDependencies_sound [OF assms]
  by (auto simp: refs_with_status_iff)

text \<open>A call of \<open>executeOperations\<close> throws and writes nothing, or runs the loop.\<close>

lemma executeOperations_cases:
  "(executeOperations stack options s = Inl RangeError
      \<and> state_after s (executeOperations stack options s) = s)
   \<or> (\<exists>rs. sortByDependencies stack (mock_operations s)
               (refs_with_status Approved (mock_operations s)) = Inr rs
          \<and> executeOperations stack options s = Inr (execute_ops options rs s [])
          \<and> state_after s (executeOperations stack options s) = snd (execute_ops options rs s []))"
proof (cases "sortByDependencies stack (mock_operations s)
               (refs_with_status Approved (mock_operations s))")
  case (Inl e)
  moreover have "e = RangeError" by (cases e)
  ultimately show ?thesis by (simp add: executeOperations_def state_after_def)
next
  case (Inr rs)
  then show ?thesis by (simp add: executeOperations_def state_after_def)
qed

lemma executeOperations_extends:
  "extends (mock_operations s) (mock_operations (state_after s (executeOperations stack options s)))"
  using executeOperations_cases [of stack options s]
proof (elim disjE conjE exE)
  assume "state_after s (executeOperations stack options s) = s"
  then show ?thesis by (simp add: extends_refl)
next
  fix rs
  assume rs: "sortByDependencies stack (mock_operations s)
               (refs_with_status Approved (mock_operations s)) = Inr rs"
    and e: "state_after s (executeOperations stack options s) = snd (execute_ops options rs s [])"
  show ?thesis unfolding e using execute_ops_extends sorted_approved [OF rs] by simp
qed

lemma executeOperations_dependency:
  "\<forall>i < length (mock_operations s).
     mock_operations (state_after s (executeOperations stack options s)) ! i \<noteq> mock_operations s ! i
     \<longrightarrow> \<not> dependency_unmet (mock_operations (state_after s (executeOperations stack options s)))
             (mock_operations s ! i)"
  using executeOperations_cases [of stack options s]
proof (elim disjE conjE exE)
  assume "state_after s (executeOperations stack options s) = s"
  then show ?thesis by simp
next
  fix rs
  assume rs: "sortByDependencies stack (mock_operations s)
               (refs_with_status Approved (mock_operations s)) = Inr rs"
    and e: "state_after s (executeOperations stack options s) = snd (execute_ops options rs s [])"
  show ?thesis unfolding e using execute_ops_dependency sorted_approved [OF rs] by simp
qed

lemma execute_calls_Cons:
  "execute_calls (c # calls) s
   = execute_calls calls (state_after s (executeOperations (fst c) (snd c) s))"
  by (simp add: execute_calls_def case_prod_beta)

lemma execute_calls_extends:
  "extends (mock_operations s) (mock_operations (execute_calls calls s))"
proof (induction calls arbitrary: s)
  case Nil
  then show ?case by (simp add: execute_calls_def extends_refl)
next
  case (Cons c calls)
  let ?s1 = "state_after s (executeOperations (fst c) (snd c) s)"
  show ?case
    using extends_trans [OF executeOperations_extends [of s "fst c" "snd c"] Cons.IH [of ?s1]]
    by (simp add: execute_calls_Cons)
qed

lemma execute_calls_dependency:
  "\<forall>i < length (mock_operations s).
     mock_operations (execute_calls calls s) ! i \<noteq> mock_operations s ! i
     \<longrightarrow> \<not> dependency_unmet (mock_operations (execute_calls calls s)) (mock_operations s ! i)"
proof (induction calls arbitrary: s)
  case Nil
  then show ?case by (simp add: execute_calls_def)
next
  case (Cons c calls)
  let ?s1 = "state_after s (executeOperations (fst c) (snd c) s)"
  have e: "execute_calls (c # calls) s = execute_calls calls ?s1"
    by (rule execute_calls_Cons)
  have len: "length (mock_operations ?s1) = length (mock_operations s)"
    using executeOperations_extends [of s "fst c" "snd c"] by (simp add: extends_def)
  have "\<not> dependency_unmet (mock_operations (execute_calls calls ?s1)) (mock_operations s ! i)"
    if i: "i < length (mock_operations s)"
      and ne: "mock_operations (execute_calls calls ?s1) ! i \<noteq> mock_operations s ! i" for i
  proof (cases "mock_operations ?s1 ! i = mock_operations s ! i")
    case True
    then show ?thesis using Cons.IH [of ?s1] i ne len by auto
  next
    case False
    then have "\<not> dependency_unmet (mock_operations ?s1) (mock_operations s ! i)"
      using executeOperations_dependency [of s "fst c" "snd c"] i by blast
    then show ?thesis using dependency_met_extends execute_calls_extends by blast
  qed
  then show ?case unfolding e by blast
qed

text \<open>
  C3. An operation whose \<^verbatim>\<open>dependsOn\<close> names X is run only when the first operation of
  the queue with the id X is completed. In the loop, an operation whose dependency is
  missing or not completed at its turn is skipped: the loop goes on with the next and
  writes nothing. Over any number of calls of \<open>executeOperations\<close>, whatever room the
  call stack has at each (a call in which the sort throws writes nothing): as long as X
  is missing or not completed after the calls, the operation is what it was before them,
  so it was never running and an approved one is still approved.
\<close>

theorem dependent_operation_waits:
  "(dependency_unmet (mock_operations s) (mock_operations s ! r)
      \<longrightarrow> execute_ops options (r # rs) s acc = execute_ops options rs s acc)
   \<and> length (mock_operations (execute_calls calls s)) = length (mock_operations s)
   \<and> (\<forall>i < length (mock_operations s).
        dependency_unmet (mock_operations (execute_calls calls s)) (mock_operations s ! i)
        \<longrightarrow> mock_operations (execute_calls calls s) ! i = mock_operations s ! i)"
  using execute_ops_skip [of s r options rs acc] execute_calls_dependency [of s calls]
    execute_calls_extends [of s calls]
  by (auto simp: extends_def)

lemma first_call:
  "mock_operations (state_after (sample_queue waiting_ops)
      (executeOperations 10000 None (sample_queue waiting_ops))) = waited_ops"
proof -
  have sorted: "sortByDependencies 10000 waiting_ops (refs_with_status Approved waiting_ops) = Inr [0, 2]"
    by (simp add: waiting_ops_def sample_op_def refs_with_status_def sortByDependencies_def
        visit.simps dependency_def push_def upt_rec)
  have ops: "mock_operations (sample_queue waiting_ops) = waiting_ops"
    by (simp add: sample_queue_def)
  have "mock_operations (snd (execute_ops None [0, 2] (sample_queue waiting_ops) [])) = waited_ops"
    by (simp add: sample_queue_def waiting_ops_def waited_ops_def sample_op_def finished_def
        execute_ops.simps dependency_unmet_def set_status_def set_result_def configuredResult_def
        default_result_def Let_def createMockConnectorState_def)
  then show ?thesis by (simp add: executeOperations_def state_after_def ops sorted)
qed

lemma later_call:
  assumes "mock_operations s = waited_ops"
  shows "executeOperations 10000 options s = Inr (\<lparr>results = [], otpRequired = None\<rparr>, s)"
proof -
  have sorted: "sortByDependencies 10000 waited_ops (refs_with_status Approved waited_ops) = Inr [0]"
    by (simp add: waited_ops_def sample_op_def finished_def default_result_def refs_with_status_def
        sortByDependencies_def visit.simps dependency_def push_def upt_rec)
  have unmet: "dependency_unmet waited_ops (waited_ops ! 0)"
    by (simp add: waited_ops_def sample_op_def finished_def default_result_def dependency_unmet_def)
  show ?thesis
    by (simp add: executeOperations_def assms sorted execute_ops_skip unmet)
qed

theorem dependent_operation_waits_witness:
  "dependency_unmet
     (mock_operations (execute_calls [(10000, None), (10000, None)] (sample_queue waiting_ops)))
     (mock_operations (sample_queue waiting_ops) ! 0)
   \<and> map status (mock_operations (execute_calls [(10000, None), (10000, None)] (sample_queue waiting_ops)))
     = [Approved, Pending, Completed]
   \<and> mock_operations (execute_calls [(10000, None), (10000, None)] (sample_queue waiting_ops)) ! 0
     = sample_op ''op-1'' Approved (Some ''op-2'')"
proof -
  let ?calls = "[(10000, None), (10000, None)] :: (nat \<times> ExecuteOptions option) list"
  let ?s1 = "state_after (sample_queue waiting_ops)
      (executeOperations 10000 None (sample_queue waiting_ops))"
  have e: "execute_calls ?calls (sample_queue waiting_ops) = ?s1"
    by (simp add: execute_calls_def later_call [OF first_call] state_after_def [of ?s1])
  have len: "0 < length (mock_operations (sample_queue waiting_ops))"
    and at0: "mock_operations (sample_queue waiting_ops) ! 0 = sample_op ''op-1'' Approved (Some ''op-2'')"
    by (simp_all add: sample_queue_def waiting_ops_def)
  have unmet: "dependency_unmet (mock_operations (execute_calls ?calls (sample_queue waiting_ops)))
     (mock_operations (sample_queue waiting_ops) ! 0)"
    unfolding e first_call at0
    by (simp add: waited_ops_def sample_op_def finished_def default_result_def dependency_unmet_def)
  have st: "map status (mock_operations (execute_calls ?calls (sample_queue waiting_ops)))
     = [Approved, Pending, Completed]"
    unfolding e first_call
    by (simp add: waited_ops_def sample_op_def finished_def default_result_def)
  from dependent_operation_waits [of "sample_queue waiting_ops" 0 None "[]" "[]" ?calls]
  have "mock_operations (execute_calls ?calls (sample_queue waiting_ops)) ! 0
      = mock_operations (sample_queue waiting_ops) ! 0"
    using unmet len by blast
  then show ?thesis using unmet st at0 by simp
qed

subsection \<open>The lifecycle of a status\<close>

lemma findIndex_find:
  "(find P xs = None \<longleftrightarrow> findIndex P xs = None)
   \<and> (\<forall>i. findIndex P xs = Some i \<longrightarrow> i < length xs \<and> find P xs = Some (xs ! i))"
  by (induction xs) (auto split: option.splits)

lemma findIndex_Some: "findIndex P xs = Some i \<Longrightarrow> i < length xs \<and> find P xs = Some (xs ! i)"
  using findIndex_find [of P xs] by blast

lemma findIndex_None: "findIndex P xs = None \<longleftrightarrow> find P xs = None"
  using findIndex_find [of P xs] by blast

lemma approveOperation_refused:
  "(case getOperation i s of None \<Rightarrow> True | Some op \<Rightarrow> status op \<noteq> Pending)
   \<Longrightarrow> approveOperation i s = (None, s)"
  by (auto simp: approveOperation_def getOperation_def findIndex_None [symmetric]
      dest: findIndex_Some split: option.splits)

lemma retryOperation_refused:
  "(case getOperation i s of None \<Rightarrow> True | Some op \<Rightarrow> status op \<noteq> Failed)
   \<Longrightarrow> retryOperation i s = (None, s)"
  by (auto simp: retryOperation_def getOperation_def findIndex_None [symmetric]
      dest: findIndex_Some split: option.splits)

lemma perform_step:
  "length (mock_operations (perform c s)) = length (mock_operations s)
   \<and> (\<forall>k < length (mock_operations s).
         status (mock_operations (perform c s) ! k) = status (mock_operations s ! k)
         \<or> call_step c (status (mock_operations s ! k)) (status (mock_operations (perform c s) ! k)))"
proof (cases c)
  case (Approve i)
  show ?thesis
  proof (cases "findIndex (\<lambda>op. op_id op = i) (mock_operations s)")
    case None
    then show ?thesis unfolding Approve by (simp add: approveOperation_def)
  next
    case (Some r)
    then have r: "r < length (mock_operations s)" by (simp add: findIndex_Some)
    show ?thesis unfolding Approve using Some r
      by (simp add: approveOperation_def Let_def nth_list_update)
  qed
next
  case ApproveAll
  show ?thesis unfolding ApproveAll
    by (simp add: approveAll_def approveAll_loop_eq)
next
  case (Retry i)
  show ?thesis
  proof (cases "findIndex (\<lambda>op. op_id op = i) (mock_operations s)")
    case None
    then show ?thesis unfolding Retry by (simp add: retryOperation_def)
  next
    case (Some r)
    then have r: "r < length (mock_operations s)" by (simp add: findIndex_Some)
    show ?thesis unfolding Retry using Some r
      by (simp add: retryOperation_def Let_def nth_list_update)
  qed
next
  case (Execute stack options)
  let ?f = "mock_operations (state_after s (executeOperations stack options s))"
  from executeOperations_cases [of stack options s]
  show ?thesis
  proof (elim disjE conjE exE)
    assume "state_after s (executeOperations stack options s) = s"
    then show ?thesis unfolding Execute by simp
  next
    fix rs
    assume rs: "sortByDependencies stack (mock_operations s)
               (refs_with_status Approved (mock_operations s)) = Inr rs"
      and e: "state_after s (executeOperations stack options s) = snd (execute_ops options rs s [])"
    have b: "\<forall>r \<in> set rs. r < length (mock_operations s)" using sorted_approved [OF rs] by blast
    have f: "?f = mock_operations (snd (execute_ops options rs s []))"
      by (simp add: e)
    from execute_ops_changes [OF b, of options "[]"]
    have len: "length ?f = length (mock_operations s)"
      and ch: "\<forall>i < length (mock_operations s). ?f ! i = mock_operations s ! i
            \<or> (i \<in> set rs \<and> (\<exists>x. ?f ! i = finished x (mock_operations s ! i)))"
      unfolding f by simp_all
    have "status (?f ! k) = status (mock_operations s ! k)
        \<or> (status (mock_operations s ! k) = Approved
            \<and> (status (?f ! k) = Completed \<or> status (?f ! k) = Failed))"
      if k: "k < length (mock_operations s)" for k
    proof -
      from ch k consider "?f ! k = mock_operations s ! k"
        | x where "k \<in> set rs" "?f ! k = finished x (mock_operations s ! k)" by blast
      then show ?thesis
      proof cases
        case 1
        then show ?thesis by simp
      next
        case 2
        then have "status (mock_operations s ! k) = Approved" using sorted_approved [OF rs] by blast
        then show ?thesis using 2 by simp
      qed
    qed
    then show ?thesis unfolding Execute using len by simp
  qed
qed

lemma call_step_lifecycle: "call_step c a b \<Longrightarrow> lifecycle\<^sup>*\<^sup>* a b"
proof (cases c)
  case (Execute stack options)
  assume "call_step c a b"
  then have a: "a = Approved" and b: "b = Completed \<or> b = Failed" using Execute by simp_all
  have "lifecycle Approved Running" "lifecycle Running b" using b by auto
  then show ?thesis unfolding a by (meson rtranclp.rtrancl_into_rtrancl rtranclp.rtrancl_refl)
qed auto

lemma perform_all_lifecycle:
  "length (mock_operations (fold perform calls s)) = length (mock_operations s)
   \<and> (\<forall>k < length (mock_operations s).
         lifecycle\<^sup>*\<^sup>* (status (mock_operations s ! k)) (status (mock_operations (fold perform calls s) ! k)))"
proof (induction calls arbitrary: s)
  case Nil
  then show ?case by simp
next
  case (Cons c calls)
  let ?s1 = "perform c s"
  have len1: "length (mock_operations ?s1) = length (mock_operations s)"
    and st1: "\<forall>k < length (mock_operations s).
         status (mock_operations ?s1 ! k) = status (mock_operations s ! k)
         \<or> call_step c (status (mock_operations s ! k)) (status (mock_operations ?s1 ! k))"
    using perform_step [of c s] by simp_all
  have first: "lifecycle\<^sup>*\<^sup>* (status (mock_operations s ! k)) (status (mock_operations ?s1 ! k))"
    if "k < length (mock_operations s)" for k
    using st1 that call_step_lifecycle by fastforce
  from Cons.IH [of ?s1] len1 first show ?case
    by (auto intro: rtranclp_trans)
qed

lemma call_step_along_lifecycle:
  "call_step c a b \<Longrightarrow>
   (case c of Execute stack options \<Rightarrow> lifecycle a Running \<and> lifecycle Running b
    | _ \<Rightarrow> lifecycle a b)"
  by (cases c) auto

text \<open>
  C2. \<open>approveOperation\<close> on an operation that is missing or not pending, and
  \<open>retryOperation\<close> on one that is missing or not failed, return \<^verbatim>\<open>null\<close> and change
  nothing. Each of approve, approveAll, retry and execute leaves the status of an
  operation as it is or moves it along the lifecycle: pending to approved (approve,
  approveAll), failed to approved (retry), approved through running to completed or
  failed (execute; a call of execute in which the sort throws leaves every status as it
  is). Over any sequence of these calls the status of every operation moves along the
  lifecycle only.
\<close>

theorem status_follows_lifecycle:
  "((case getOperation i s of None \<Rightarrow> True | Some op \<Rightarrow> status op \<noteq> Pending)
      \<longrightarrow> approveOperation i s = (None, s))
   \<and> ((case getOperation i s of None \<Rightarrow> True | Some op \<Rightarrow> status op \<noteq> Failed)
      \<longrightarrow> retryOperation i s = (None, s))
   \<and> length (mock_operations (perform c s)) = length (mock_operations s)
   \<and> (\<forall>k < length (mock_operations s).
         status (mock_operations (perform c s) ! k) = status (mock_operations s ! k)
         \<or> call_step c (status (mock_operations s ! k)) (status (mock_operations (perform c s) ! k)))
   \<and> (call_step c a b \<longrightarrow>
         (case c of Execute stack options \<Rightarrow> lifecycle a Running \<and> lifecycle Running b
          | _ \<Rightarrow> lifecycle a b))
   \<and> length (mock_operations (fold perform calls s)) = length (mock_operations s)
   \<and> (\<forall>k < length (mock_operations s).
         lifecycle\<^sup>*\<^sup>* (status (mock_operations s ! k))
           (status (mock_operations (fold perform calls s) ! k)))"
  using approveOperation_refused [of i s] retryOperation_refused [of i s]
    perform_step [of c s] call_step_along_lifecycle [of c a b] perform_all_lifecycle [of calls s]
  by blast

lemma run_mixed:
  "map status (mock_operations (fold perform [Approve ''op-3'', ApproveAll, Retry ''op-2'', Execute 10000 None]
      (sample_queue mixed_ops))) = [Completed, Completed, Completed]"
  by (simp add: sample_queue_def mixed_ops_def sample_op_def approveOperation_def approveAll_def
      retryOperation_def executeOperations_def state_after_def refs_with_status_def
      sortByDependencies_def visit.simps dependency_def push_def execute_ops.simps
      dependency_unmet_def set_status_def set_result_def configuredResult_def default_result_def
      Let_def createMockConnectorState_def upt_rec)

theorem status_follows_lifecycle_witness:
  "approveOperation ''op-3'' (sample_queue mixed_ops) = (None, sample_queue mixed_ops)
   \<and> retryOperation ''op-1'' (sample_queue mixed_ops) = (None, sample_queue mixed_ops)
   \<and> lifecycle\<^sup>*\<^sup>* Pending Completed
   \<and> map status (mock_operations (fold perform [Approve ''op-3'', ApproveAll, Retry ''op-2'', Execute 10000 None]
        (sample_queue mixed_ops))) = [Completed, Completed, Completed]"
proof -
  let ?s = "sample_queue mixed_ops"
  let ?calls = "[Approve ''op-3'', ApproveAll, Retry ''op-2'', Execute 10000 None]"
  have h3: "case getOperation ''op-3'' ?s of None \<Rightarrow> True | Some op \<Rightarrow> status op \<noteq> Pending"
    and h1: "case getOperation ''op-1'' ?s of None \<Rightarrow> True | Some op \<Rightarrow> status op \<noteq> Failed"
    by (simp_all add: getOperation_def sample_queue_def mixed_ops_def sample_op_def)
  have len: "0 < length (mock_operations ?s)"
    and st: "status (mock_operations ?s ! 0) = Pending"
    by (simp_all add: sample_queue_def mixed_ops_def sample_op_def)
  have fin: "status (mock_operations (fold perform ?calls ?s) ! 0) = Completed"
  proof -
    have "map status (mock_operations (fold perform ?calls ?s)) ! 0 = Completed"
      unfolding run_mixed by simp
    moreover have "0 < length (mock_operations (fold perform ?calls ?s))"
      using arg_cong [OF run_mixed, of length] by simp
    ultimately show ?thesis by (simp only: nth_map)
  qed
  note T3 = status_follows_lifecycle [of "''op-3''" ?s ApproveAll Pending Approved ?calls]
  note T1 = status_follows_lifecycle [of "''op-1''" ?s ApproveAll Pending Approved ?calls]
  have a: "approveOperation ''op-3'' ?s = (None, ?s)" using T3 h3 by blast
  have r: "retryOperation ''op-1'' ?s = (None, ?s)" using T1 h1 by blast
  have "lifecycle\<^sup>*\<^sup>* (status (mock_operations ?s ! 0))
     (status (mock_operations (fold perform ?calls ?s) ! 0))"
    using T3 len by blast
  then have l: "lifecycle\<^sup>*\<^sup>* Pending Completed" unfolding st fin .
  show ?thesis using a r l run_mixed by blast
qed

subsection \<open>Halting on a request for a one-time password\<close>

lemma execute_ops_otp_results:
  assumes "\<not> truthy (options_otp options)"
  shows "\<exists>new. results (fst (execute_ops options rs s acc)) = acc @ new
       \<and> (otpRequired (fst (execute_ops options rs s acc)) = Some True
            \<longleftrightarrow> (\<exists>x \<in> set new. requiresOtp x = Some True))
       \<and> (otpRequired (fst (execute_ops options rs s acc)) = Some True
            \<longrightarrow> new \<noteq> [] \<and> requiresOtp (last new) = Some True)
       \<and> (\<forall>x \<in> set (butlast new). requiresOtp x \<noteq> Some True)"
proof (induction rs arbitrary: s acc)
  case Nil
  show ?case by simp
next
  case (Cons r rs)
  let ?s1 = "snd (run_one options r s)"
  let ?x = "fst (run_one options r s)"
  consider (skip) "dependency_unmet (mock_operations s) (mock_operations s ! r)"
    | (halt) "\<not> dependency_unmet (mock_operations s) (mock_operations s ! r)"
        "requiresOtp ?x = Some True"
    | (continue) "\<not> dependency_unmet (mock_operations s) (mock_operations s ! r)"
        "requiresOtp ?x \<noteq> Some True"
    by blast
  then show ?case
  proof cases
    case skip
    then have "execute_ops options (r # rs) s acc = execute_ops options rs s acc"
      by (rule execute_ops_skip)
    then show ?thesis using Cons.IH [of s acc] by simp
  next
    case halt
    then have e: "execute_ops options (r # rs) s acc
        = (\<lparr>results = acc @ [?x], otpRequired = Some True\<rparr>, ?s1)"
      using assms by (simp add: execute_ops_halt)
    show ?thesis unfolding e using halt(2) by (intro exI [of _ "[?x]"]) simp
  next
    case continue
    then have e: "execute_ops options (r # rs) s acc = execute_ops options rs ?s1 (acc @ [?x])"
      by (simp add: execute_ops_continue)
    from Cons.IH [of ?s1 "acc @ [?x]"]
    obtain new where n: "results (fst (execute_ops options rs ?s1 (acc @ [?x]))) = (acc @ [?x]) @ new"
      "otpRequired (fst (execute_ops options rs ?s1 (acc @ [?x]))) = Some True
         \<longleftrightarrow> (\<exists>x \<in> set new. requiresOtp x = Some True)"
      "otpRequired (fst (execute_ops options rs ?s1 (acc @ [?x]))) = Some True
         \<longrightarrow> new \<noteq> [] \<and> requiresOtp (last new) = Some True"
      "\<forall>x \<in> set (butlast new). requiresOtp x \<noteq> Some True"
      by blast
    show ?thesis unfolding e
    proof (intro exI [of _ "?x # new"] conjI)
      show "results (fst (execute_ops options rs ?s1 (acc @ [?x]))) = acc @ ?x # new"
        using n(1) by simp
      show "otpRequired (fst (execute_ops options rs ?s1 (acc @ [?x]))) = Some True
          \<longleftrightarrow> (\<exists>x \<in> set (?x # new). requiresOtp x = Some True)"
        using n(2) continue(2) by simp
      show "otpRequired (fst (execute_ops options rs ?s1 (acc @ [?x]))) = Some True
          \<longrightarrow> ?x # new \<noteq> [] \<and> requiresOtp (last (?x # new)) = Some True"
        using n(3) by simp
      show "\<forall>x \<in> set (butlast (?x # new)). requiresOtp x \<noteq> Some True"
        using n(4) continue(2) by simp
    qed
  qed
qed

lemma execute_ops_halt_point:
  assumes "otpRequired (fst (execute_ops options rs s acc)) = Some True"
    and "distinct rs" and "\<forall>r \<in> set rs. r < length (mock_operations s)"
  shows "\<exists>pre r post. rs = pre @ r # post
       \<and> execute_ops options rs s acc = execute_ops options (pre @ [r]) s acc
       \<and> mock_operations (snd (execute_ops options rs s acc)) ! r
           = finished (last (results (fst (execute_ops options rs s acc)))) (mock_operations s ! r)
       \<and> (\<forall>q \<in> set post. mock_operations (snd (execute_ops options rs s acc)) ! q
                            = mock_operations s ! q)"
  using assms
proof (induction rs arbitrary: s acc)
  case Nil
  then show ?case by simp
next
  case (Cons r rs)
  let ?s1 = "snd (run_one options r s)"
  let ?x = "fst (run_one options r s)"
  have r: "r < length (mock_operations s)"
    and rs: "\<forall>q \<in> set rs. q < length (mock_operations s)"
    and d: "distinct rs" and r_notin: "r \<notin> set rs"
    using Cons.prems by simp_all
  have ops1: "mock_operations ?s1 = (mock_operations s)[r := finished ?x (mock_operations s ! r)]"
    using run_one_operations [OF r] .
  have others: "mock_operations ?s1 ! q = mock_operations s ! q" if "q \<in> set rs" for q
    using that r_notin ops1 by (metis nth_list_update_neq)
  have rs1: "\<forall>q \<in> set rs. q < length (mock_operations ?s1)" using rs ops1 by simp
  consider (skip) "dependency_unmet (mock_operations s) (mock_operations s ! r)"
    | (halt) "\<not> dependency_unmet (mock_operations s) (mock_operations s ! r)"
        "requiresOtp ?x = Some True" "\<not> truthy (options_otp options)"
    | (continue) "\<not> dependency_unmet (mock_operations s) (mock_operations s ! r)"
        "requiresOtp ?x \<noteq> Some True \<or> truthy (options_otp options)"
    by blast
  then show ?case
  proof cases
    case skip
    have e: "execute_ops options (r # rs') s acc = execute_ops options rs' s acc" for rs'
      using skip by (rule execute_ops_skip)
    from Cons.IH [of s acc] Cons.prems(1) d rs
    obtain pre r' post where p: "rs = pre @ r' # post"
      "execute_ops options rs s acc = execute_ops options (pre @ [r']) s acc"
      "mock_operations (snd (execute_ops options rs s acc)) ! r'
         = finished (last (results (fst (execute_ops options rs s acc)))) (mock_operations s ! r')"
      "\<forall>q \<in> set post. mock_operations (snd (execute_ops options rs s acc)) ! q = mock_operations s ! q"
      unfolding e by blast
    show ?thesis
    proof (rule exI [of _ "r # pre"], rule exI [of _ r'], rule exI [of _ post], intro conjI)
      show "r # rs = (r # pre) @ r' # post" using p(1) by simp
      show "execute_ops options (r # rs) s acc = execute_ops options ((r # pre) @ [r']) s acc"
        using p(2) e by simp
      show "mock_operations (snd (execute_ops options (r # rs) s acc)) ! r'
          = finished (last (results (fst (execute_ops options (r # rs) s acc)))) (mock_operations s ! r')"
        using p(3) by (simp add: e)
      show "\<forall>q \<in> set post. mock_operations (snd (execute_ops options (r # rs) s acc)) ! q
          = mock_operations s ! q"
        using p(4) by (simp add: e)
    qed
  next
    case halt
    have e: "execute_ops options (r # rs') s acc
        = (\<lparr>results = acc @ [?x], otpRequired = Some True\<rparr>, ?s1)" for rs'
      using halt by (rule execute_ops_halt)
    show ?thesis
    proof (rule exI [of _ "[]"], rule exI [of _ r], rule exI [of _ rs], intro conjI)
      show "r # rs = [] @ r # rs" by simp
      show "execute_ops options (r # rs) s acc = execute_ops options ([] @ [r]) s acc"
        using e [of rs] e [of "[]"] by simp
      show "mock_operations (snd (execute_ops options (r # rs) s acc)) ! r
          = finished (last (results (fst (execute_ops options (r # rs) s acc)))) (mock_operations s ! r)"
        unfolding e using ops1 r by simp
      show "\<forall>q \<in> set rs. mock_operations (snd (execute_ops options (r # rs) s acc)) ! q
          = mock_operations s ! q"
        unfolding e using others by simp
    qed
  next
    case continue
    have e: "execute_ops options (r # rs') s acc = execute_ops options rs' ?s1 (acc @ [?x])" for rs'
      using continue by (rule execute_ops_continue)
    from Cons.IH [of ?s1 "acc @ [?x]"] Cons.prems(1) d rs1
    obtain pre r' post where p: "rs = pre @ r' # post"
      "execute_ops options rs ?s1 (acc @ [?x]) = execute_ops options (pre @ [r']) ?s1 (acc @ [?x])"
      "mock_operations (snd (execute_ops options rs ?s1 (acc @ [?x]))) ! r'
         = finished (last (results (fst (execute_ops options rs ?s1 (acc @ [?x]))))) (mock_operations ?s1 ! r')"
      "\<forall>q \<in> set post. mock_operations (snd (execute_ops options rs ?s1 (acc @ [?x]))) ! q
         = mock_operations ?s1 ! q"
      unfolding e by blast
    have r'_in: "r' \<in> set rs" and post_in: "set post \<subseteq> set rs" using p(1) by auto
    show ?thesis
    proof (rule exI [of _ "r # pre"], rule exI [of _ r'], rule exI [of _ post], intro conjI)
      show "r # rs = (r # pre) @ r' # post" using p(1) by simp
      show "execute_ops options (r # rs) s acc = execute_ops options ((r # pre) @ [r']) s acc"
        using p(2) e by simp
      show "mock_operations (snd (execute_ops options (r # rs) s acc)) ! r'
          = finished (last (results (fst (execute_ops options (r # rs) s acc)))) (mock_operations s ! r')"
        using p(3) others [OF r'_in] unfolding e by simp
      show "\<forall>q \<in> set post. mock_operations (snd (execute_ops options (r # rs) s acc)) ! q
          = mock_operations s ! q"
        using p(4) others post_in unfolding e by auto
    qed
  qed
qed

text \<open>
  C1, as the code has it. In a call of \<open>executeOperations\<close> without a one-time password
  that returns results of which one asks for a one-time password: the call returns with
  \<^verbatim>\<open>otpRequired: true\<close>; the result that asks is the last of the returned results and the
  only one that asks; the call is the run of the loop up to and including the operation
  that asked, so no later operation of the order is attempted and each of them is what it
  was, approved; the operation that asked has its result recorded and its status set from
  the exit code, \<^verbatim>\<open>failed\<close> unless the code is 0; and each earlier operation of the order
  was skipped or is finished with its own result, \<^verbatim>\<open>completed\<close> when that succeeded.
\<close>

theorem otp_required_halts_batch:
  assumes "executeOperations stack options s = Inr (out, s')"
    and "\<not> truthy (options_otp options)"
    and "\<exists>x \<in> set (results out). requiresOtp x = Some True"
  shows "otpRequired out = Some True
       \<and> results out \<noteq> []
       \<and> requiresOtp (last (results out)) = Some True
       \<and> (\<forall>x \<in> set (butlast (results out)). requiresOtp x \<noteq> Some True)
       \<and> (\<exists>pre r post.
             sortByDependencies stack (mock_operations s)
                 (refs_with_status Approved (mock_operations s))
               = Inr (pre @ r # post)
             \<and> (out, s') = execute_ops options (pre @ [r]) s []
             \<and> mock_operations s' ! r = finished (last (results out)) (mock_operations s ! r)
             \<and> (\<forall>q \<in> set post.
                   mock_operations s' ! q = mock_operations s ! q
                   \<and> status (mock_operations s' ! q) = Approved)
             \<and> (\<forall>q \<in> set pre.
                   mock_operations s' ! q = mock_operations s ! q
                   \<or> (\<exists>x. mock_operations s' ! q = finished x (mock_operations s ! q))))"
proof -
  from executeOperations_cases [of stack options s] assms(1)
  obtain rs where rs: "sortByDependencies stack (mock_operations s)
               (refs_with_status Approved (mock_operations s)) = Inr rs"
    and run: "execute_ops options rs s [] = (out, s')"
    by auto
  let ?E = "execute_ops options rs s []"
  have out: "fst ?E = out" and s': "snd ?E = s'" using run by simp_all
  have d: "distinct rs" and b: "\<forall>r \<in> set rs. r < length (mock_operations s)"
    and app: "\<forall>r \<in> set rs. status (mock_operations s ! r) = Approved"
    using sorted_approved [OF rs] by auto
  from execute_ops_otp_results [OF assms(2), of rs s "[]"]
  obtain new where n: "results (fst ?E) = new"
      "otpRequired (fst ?E) = Some True \<longleftrightarrow> (\<exists>x \<in> set new. requiresOtp x = Some True)"
      "otpRequired (fst ?E) = Some True \<longrightarrow> new \<noteq> [] \<and> requiresOtp (last new) = Some True"
      "\<forall>x \<in> set (butlast new). requiresOtp x \<noteq> Some True"
    by auto
  have flag: "otpRequired (fst ?E) = Some True" using n(1,2) assms(3) unfolding out by simp
  from execute_ops_halt_point [OF flag d b]
  obtain pre r post where p: "rs = pre @ r # post"
      "?E = execute_ops options (pre @ [r]) s []"
      "mock_operations (snd ?E) ! r = finished (last (results (fst ?E))) (mock_operations s ! r)"
      "\<forall>q \<in> set post. mock_operations (snd ?E) ! q = mock_operations s ! q"
    by blast
  have post_app: "\<forall>q \<in> set post. status (mock_operations (snd ?E) ! q) = Approved"
    using p(1,4) app by simp
  have pre_ch: "\<forall>q \<in> set pre. mock_operations (snd ?E) ! q = mock_operations s ! q
        \<or> (\<exists>x. mock_operations (snd ?E) ! q = finished x (mock_operations s ! q))"
  proof
    fix q assume "q \<in> set pre"
    then have "q < length (mock_operations s)" using p(1) b by simp
    then show "mock_operations (snd ?E) ! q = mock_operations s ! q
        \<or> (\<exists>x. mock_operations (snd ?E) ! q = finished x (mock_operations s ! q))"
      using execute_ops_changes [OF b, of options "[]"] by blast
  qed
  have "\<exists>pre r post.
         sortByDependencies stack (mock_operations s)
             (refs_with_status Approved (mock_operations s))
           = Inr (pre @ r # post)
       \<and> (out, s') = execute_ops options (pre @ [r]) s []
       \<and> mock_operations s' ! r = finished (last (results out)) (mock_operations s ! r)
       \<and> (\<forall>q \<in> set post. mock_operations s' ! q = mock_operations s ! q
             \<and> status (mock_operations s' ! q) = Approved)
       \<and> (\<forall>q \<in> set pre. mock_operations s' ! q = mock_operations s ! q
             \<or> (\<exists>x. mock_operations s' ! q = finished x (mock_operations s ! q)))"
  proof (rule exI [of _ pre], rule exI [of _ r], rule exI [of _ post], intro conjI)
    show "sortByDependencies stack (mock_operations s)
             (refs_with_status Approved (mock_operations s)) = Inr (pre @ r # post)"
      using rs p(1) by simp
    show "(out, s') = execute_ops options (pre @ [r]) s []"
      using p(2) run by simp
    show "mock_operations s' ! r = finished (last (results out)) (mock_operations s ! r)"
      using p(3) unfolding out s' .
    show "\<forall>q \<in> set post. mock_operations s' ! q = mock_operations s ! q
             \<and> status (mock_operations s' ! q) = Approved"
      using p(4) post_app unfolding s' by simp
    show "\<forall>q \<in> set pre. mock_operations s' ! q = mock_operations s ! q
             \<or> (\<exists>x. mock_operations s' ! q = finished x (mock_operations s ! q))"
      using pre_ch unfolding s' .
  qed
  then show ?thesis using flag n(1,3,4) unfolding out by simp
qed

lemma otp_run:
  "returned (executeOperations 10000 otp_options (sample_queue otp_ops))
   = Some \<lparr>results =
        [default_result (sample_op ''op-1'' Approved None),
         \<lparr>stdout = [], stderr = ''EOTP'', exitCode = CodeNum 1, requiresOtp = Some True, authFailure = None\<rparr>],
       otpRequired = Some True\<rparr>
   \<and> map status (mock_operations (state_after (sample_queue otp_ops)
         (executeOperations 10000 otp_options (sample_queue otp_ops))))
       = [Completed, Failed, Approved]"
  by (simp add: sample_queue_def otp_ops_def otp_options_def sample_op_def executeOperations_def
      returned_def state_after_def
      refs_with_status_def sortByDependencies_def visit.simps dependency_def push_def
      execute_ops.simps dependency_unmet_def set_status_def set_result_def configuredResult_def
      options_otp_def from_configured_def default_result_def Let_def createMockConnectorState_def
      upt_rec)

lemma returned_Some:
  "returned e = Some out \<Longrightarrow> e = Inr (out, state_after s e)"
  by (auto simp: returned_def state_after_def split: sum.splits)

text \<open>
  C1, as the claim states it, asks that the operation that triggers the halt be left
  unresolved and not \<^verbatim>\<open>failed\<close>. The loop records the result and sets the status before
  it tests for the one-time password: here no password is given, the second operation
  asks for one, the call returns \<^verbatim>\<open>otpRequired: true\<close>, and that operation is
  \<^verbatim>\<open>failed\<close>.
\<close>

theorem otp_trigger_is_failed:
  "options_otp otp_options = None
   \<and> returned (executeOperations 10000 otp_options (sample_queue otp_ops))
     = Some \<lparr>results =
        [default_result (sample_op ''op-1'' Approved None),
         \<lparr>stdout = [], stderr = ''EOTP'', exitCode = CodeNum 1, requiresOtp = Some True, authFailure = None\<rparr>],
       otpRequired = Some True\<rparr>
   \<and> status (mock_operations (state_after (sample_queue otp_ops)
        (executeOperations 10000 otp_options (sample_queue otp_ops))) ! 1) = Failed"
proof -
  let ?s = "state_after (sample_queue otp_ops) (executeOperations 10000 otp_options (sample_queue otp_ops))"
  have "map status (mock_operations ?s) ! 1 = Failed"
    using otp_run by simp
  moreover have "1 < length (mock_operations ?s)"
    using arg_cong [OF conjunct2 [OF otp_run], of length] by simp
  ultimately have "status (mock_operations ?s ! 1) = Failed"
    by (simp only: nth_map)
  moreover have "options_otp otp_options = None" by (simp add: options_otp_def otp_options_def)
  ultimately show ?thesis using conjunct1 [OF otp_run] by simp
qed

theorem otp_required_halts_batch_witness:
  "\<not> truthy (options_otp otp_options)
   \<and> returned (executeOperations 10000 otp_options (sample_queue otp_ops))
     = Some \<lparr>results =
        [default_result (sample_op ''op-1'' Approved None),
         \<lparr>stdout = [], stderr = ''EOTP'', exitCode = CodeNum 1, requiresOtp = Some True, authFailure = None\<rparr>],
       otpRequired = Some True\<rparr>
   \<and> map status (mock_operations (state_after (sample_queue otp_ops)
         (executeOperations 10000 otp_options (sample_queue otp_ops))))
       = [Completed, Failed, Approved]"
proof -
  let ?x = "\<lparr>stdout = [], stderr = ''EOTP'', exitCode = CodeNum 1, requiresOtp = Some True,
             authFailure = None\<rparr>"
  let ?out = "\<lparr>results = [default_result (sample_op ''op-1'' Approved None), ?x],
               otpRequired = Some True\<rparr>"
  let ?s = "state_after (sample_queue otp_ops) (executeOperations 10000 otp_options (sample_queue otp_ops))"
  have no_otp: "\<not> truthy (options_otp otp_options)"
    by (simp add: options_otp_def otp_options_def)
  have run: "executeOperations 10000 otp_options (sample_queue otp_ops) = Inr (?out, ?s)"
    using returned_Some [OF conjunct1 [OF otp_run]] .
  have sig: "\<exists>x \<in> set (results ?out). requiresOtp x = Some True" by simp
  from otp_required_halts_batch [OF run no_otp sig]
  have "otpRequired ?out = Some True \<and> requiresOtp (last (results ?out)) = Some True"
    by blast
  then show ?thesis using no_otp otp_run by simp
qed

subsection \<open>The store keeps the ids unique\<close>

text \<open>
  Every state that the calls of the state manager reach from a fresh one has distinct ids,
  so the approved operations that \<open>executeOperations\<close> hands to \<open>sortByDependencies\<close>
  have distinct ids.
\<close>

declare show_nat.simps [simp del]

lemma show_nat_nonempty: "show_nat n \<noteq> []"
  by (subst show_nat.simps) simp

lemma show_nat_small: "n < 10 \<Longrightarrow> show_nat n = [char_of (48 + n)]"
  by (subst show_nat.simps) simp

lemma show_nat_large:
  "\<not> n < 10 \<Longrightarrow> show_nat n = show_nat (n div 10) @ [char_of (48 + n mod 10)]"
  by (subst show_nat.simps) simp

lemma digit_inj: "a < 10 \<Longrightarrow> b < 10 \<Longrightarrow> char_of (48 + a) = (char_of (48 + b) :: char) \<Longrightarrow> a = (b::nat)"
  by (simp add: char_of_eq_iff take_bit_nat_eq_self)

lemma show_nat_inj: "show_nat m = show_nat n \<Longrightarrow> m = n"
proof (induction m arbitrary: n rule: less_induct)
  case (less m)
  show ?case
  proof (cases "m < 10")
    case m: True
    show ?thesis
    proof (cases "n < 10")
      case True
      then show ?thesis using less.prems m digit_inj by (simp add: show_nat_small)
    next
      case False
      then show ?thesis using less.prems m show_nat_nonempty [of "n div 10"]
        by (simp add: show_nat_small show_nat_large)
    qed
  next
    case m: False
    show ?thesis
    proof (cases "n < 10")
      case True
      then show ?thesis using less.prems m show_nat_nonempty [of "m div 10"]
        by (simp add: show_nat_small show_nat_large)
    next
      case False
      then have eq: "show_nat (m div 10) = show_nat (n div 10)"
        and dg: "char_of (48 + m mod 10) = (char_of (48 + n mod 10) :: char)"
        using less.prems m by (simp_all add: show_nat_large)
      have "m div 10 < m" using m by simp
      then have "m div 10 = n div 10" using less.IH eq by blast
      moreover have "m mod 10 = n mod 10" using dg digit_inj by simp
      ultimately show ?thesis by (metis div_mult_mod_eq)
    qed
  qed
qed

lemma applyOperationEffect_counter [simp]:
  "operationIdCounter (applyOperationEffect op s) = operationIdCounter s"
  by (simp add: applyOperationEffect_def Let_def split: option.splits prod.splits)

lemma run_one_counter: "operationIdCounter (snd (run_one options r s)) = operationIdCounter s"
  by (simp add: run_one_def Let_def set_status_def set_result_def split: option.splits)

lemma execute_ops_counter:
  "operationIdCounter (snd (execute_ops options rs s acc)) = operationIdCounter s"
proof (induction rs arbitrary: s acc)
  case Nil
  show ?case by simp
next
  case (Cons r rs)
  show ?case using Cons.IH run_one_counter [of options r s]
    by (simp add: execute_ops_Cons)
qed

lemma extends_ids: "extends ops ops' \<Longrightarrow> map op_id ops' = map op_id ops"
  by (rule nth_equalityI) (simp_all add: extends_def)

lemma ids_fresh_same:
  "ids_fresh s \<Longrightarrow> map op_id (mock_operations s') = map op_id (mock_operations s)
   \<Longrightarrow> operationIdCounter s' = operationIdCounter s \<Longrightarrow> ids_fresh s'"
  by (simp add: ids_fresh_def)

lemma ids_fresh_sub:
  assumes "ids_fresh s" and "distinct (map op_id (mock_operations s'))"
    and "set (map op_id (mock_operations s')) \<subseteq> set (map op_id (mock_operations s))"
    and "operationIdCounter s' = operationIdCounter s"
  shows "ids_fresh s'"
  using assms unfolding ids_fresh_def by (metis subsetD)

lemma ids_fresh_add:
  assumes "ids_fresh s"
  shows "ids_fresh (snd (addOperation operation now s))"
proof -
  let ?new = "''op-'' @ show_nat (Suc (operationIdCounter s))"
  have ids: "map op_id (mock_operations (snd (addOperation operation now s)))
      = map op_id (mock_operations s) @ [?new]"
    and cnt: "operationIdCounter (snd (addOperation operation now s)) = Suc (operationIdCounter s)"
    by (simp_all add: addOperation_def Let_def)
  have fresh: "?new \<notin> set (map op_id (mock_operations s))"
  proof
    assume "?new \<in> set (map op_id (mock_operations s))"
    then obtain k where "k \<le> operationIdCounter s" "?new = ''op-'' @ show_nat k"
      using assms unfolding ids_fresh_def by blast
    then show False using show_nat_inj [of "Suc (operationIdCounter s)" k] by simp
  qed
  have "\<exists>k. k \<le> Suc (operationIdCounter s) \<and> i = ''op-'' @ show_nat k"
    if "i \<in> set (map op_id (mock_operations s) @ [?new])" for i
  proof (cases "i = ?new")
    case True
    then show ?thesis by blast
  next
    case False
    then have "i \<in> set (map op_id (mock_operations s))" using that by simp
    then obtain k where "k \<le> operationIdCounter s" "i = ''op-'' @ show_nat k"
      using assms unfolding ids_fresh_def by blast
    then show ?thesis using le_SucI by blast
  qed
  then show ?thesis unfolding ids_fresh_def ids cnt using assms fresh
    by (simp add: ids_fresh_def)
qed

lemma map_op_id_update:
  assumes "op_id x = op_id (ops ! r)"
  shows "map op_id (ops[r := x]) = map op_id ops"
proof (cases "r < length ops")
  case True
  have "(map op_id ops)[r := op_id x] = map op_id ops"
    using assms True by (simp add: list_update_same_conv)
  then show ?thesis by (simp add: map_update)
next
  case False
  then have "ops[r := x] = ops" by (intro list_update_beyond) simp
  then show ?thesis by simp
qed

lemma distinct_remove_nth: "distinct xs \<Longrightarrow> distinct (take k xs @ drop (Suc k) xs)"
  by (simp add: set_take_disj_set_drop_if_distinct)

lemma ids_fresh_update:
  assumes "ids_fresh s" and "op_id x = op_id (mock_operations s ! r)"
  shows "ids_fresh (s\<lparr>mock_operations := (mock_operations s)[r := x]\<rparr>)"
  by (rule ids_fresh_same [OF assms(1)]) (simp_all add: map_op_id_update [OF assms(2)])

lemma ids_fresh_apply_call: "ids_fresh s \<Longrightarrow> ids_fresh (apply_call c s)"
proof (cases c)
  case (Connect tok now)
  assume "ids_fresh s"
  then show ?thesis unfolding Connect by (auto simp: connect_def ids_fresh_def)
next
  case Disconnect
  assume "ids_fresh s"
  then show ?thesis unfolding Disconnect by (simp add: disconnect_def ids_fresh_def)
next
  case (AddOperation operation now)
  assume "ids_fresh s"
  then show ?thesis unfolding AddOperation by (simp add: ids_fresh_add)
next
  case (RemoveOperation i)
  assume a: "ids_fresh s"
  have d: "distinct (map op_id (take k (mock_operations s) @ drop (Suc k) (mock_operations s)))" for k
  proof -
    have "distinct (take k (map op_id (mock_operations s)) @ drop (Suc k) (map op_id (mock_operations s)))"
      using a unfolding ids_fresh_def by (simp only: distinct_remove_nth)
    then show ?thesis by (simp add: take_map drop_map)
  qed
  have sub: "set (map op_id (take k (mock_operations s) @ drop (Suc k) (mock_operations s)))
      \<subseteq> set (map op_id (mock_operations s))" for k
    using set_take_subset [of k "mock_operations s"] set_drop_subset [of "Suc k" "mock_operations s"]
    by auto
  have rm: "ids_fresh (s\<lparr>mock_operations := take k (mock_operations s) @ drop (Suc k) (mock_operations s)\<rparr>)" for k
    by (rule ids_fresh_sub [OF a]) (use d sub in simp_all)
  show ?thesis unfolding RemoveOperation
    using a rm by (simp add: removeOperation_def split: option.splits)
next
  case ClearOperations
  assume a: "ids_fresh s"
  have d: "distinct (map op_id (filter (\<lambda>op. status op = Running) (mock_operations s)))"
    using a unfolding ids_fresh_def by (simp only: distinct_map_filter)
  have "ids_fresh (s\<lparr>mock_operations := filter (\<lambda>op. status op = Running) (mock_operations s)\<rparr>)"
    by (rule ids_fresh_sub [OF a]) (use d in auto)
  then show ?thesis unfolding ClearOperations by (simp add: clearOperations_def Let_def)
next
  case (ApproveOperation i)
  assume a: "ids_fresh s"
  show ?thesis unfolding ApproveOperation
    using a ids_fresh_update [OF a]
    by (simp add: approveOperation_def Let_def split: option.splits)
next
  case ApproveAllOperations
  assume a: "ids_fresh s"
  show ?thesis unfolding ApproveAllOperations
    by (rule ids_fresh_same [OF a]) (simp_all add: approveAll_def approveAll_loop_eq comp_def)
next
  case (RetryOperation i)
  assume a: "ids_fresh s"
  show ?thesis unfolding RetryOperation
    using a ids_fresh_update [OF a]
    by (simp add: retryOperation_def Let_def split: option.splits)
next
  case (ExecuteOperations stack options)
  assume a: "ids_fresh s"
  let ?s1 = "state_after s (executeOperations stack options s)"
  have ids: "map op_id (mock_operations ?s1) = map op_id (mock_operations s)"
    using executeOperations_extends [of s stack options] by (rule extends_ids)
  have cnt: "operationIdCounter ?s1 = operationIdCounter s"
    using executeOperations_cases [of stack options s] by (auto simp: execute_ops_counter)
  show ?thesis unfolding ExecuteOperations
    using ids_fresh_same [OF a ids cnt] by simp
next
  case Reset
  show ?thesis unfolding Reset by (simp add: reset_def ids_fresh_def)
qed

lemma ids_fresh_reachable: "ids_fresh (fold apply_call calls (createMockConnectorState cfg))"
proof -
  have "ids_fresh s \<Longrightarrow> ids_fresh (fold apply_call calls s)" for s
    by (induction calls arbitrary: s) (simp_all add: ids_fresh_apply_call)
  moreover have "ids_fresh (createMockConnectorState cfg)"
    by (simp add: ids_fresh_def createMockConnectorState_def)
  ultimately show ?thesis by blast
qed

lemma approved_ids_distinct:
  assumes "ids_fresh s"
  shows "distinct (map (\<lambda>r. op_id (mock_operations s ! r)) (refs_with_status Approved (mock_operations s)))"
proof -
  have "map (\<lambda>r. op_id (mock_operations s ! r)) [0..<length (mock_operations s)]
      = map op_id (map ((!) (mock_operations s)) [0..<length (mock_operations s)])"
    by simp
  also have "\<dots> = map op_id (mock_operations s)" by (simp only: map_nth)
  finally have "distinct (map (\<lambda>r. op_id (mock_operations s ! r)) [0..<length (mock_operations s)])"
    using assms by (simp add: ids_fresh_def)
  then show ?thesis unfolding refs_with_status_def by (rule distinct_map_filter)
qed

subsection \<open>A chain deeper than the call stack\<close>












end
